theory Spec2Isabelle
  imports Complex_Main
begin

section \<open>Strings\<close>

text \<open>
  A Python \<open>str\<close> is modelled as a \<open>string\<close>. The texts the program handles
  (recognised speech, captions, file names, URLs) are taken to be ASCII, where a
  character is a code point and \<open>length\<close> is Python's \<open>len\<close>. The few
  non-ASCII symbols of the program's own messages are written as their UTF-8 bytes.
\<close>

definition is_space :: "char \<Rightarrow> bool" where
  \<comment> \<open>\<open>str.isspace\<close> on ASCII: tab, LF, VT, FF, CR, FS, GS, RS, US and space\<close>
  "is_space c \<longleftrightarrow> c \<in> set [CHR 0x09, CHR 0x0A, CHR 0x0B, CHR 0x0C, CHR 0x0D,
                             CHR 0x1C, CHR 0x1D, CHR 0x1E, CHR 0x1F, CHR 0x20]"

definition lower_char :: "char \<Rightarrow> char" where
  "lower_char c =
     (case map_of (zip ''ABCDEFGHIJKLMNOPQRSTUVWXYZ'' ''abcdefghijklmnopqrstuvwxyz'') c of
        Some d \<Rightarrow> d | None \<Rightarrow> c)"

definition upper_char :: "char \<Rightarrow> char" where
  "upper_char c =
     (case map_of (zip ''abcdefghijklmnopqrstuvwxyz'' ''ABCDEFGHIJKLMNOPQRSTUVWXYZ'') c of
        Some d \<Rightarrow> d | None \<Rightarrow> c)"

definition lower :: "string \<Rightarrow> string" where
  "lower s = map lower_char s"

definition upper :: "string \<Rightarrow> string" where
  "upper s = map upper_char s"

definition capitalize :: "string \<Rightarrow> string" where
  \<comment> \<open>\<open>str.capitalize\<close>: first character upper case, the rest lower case\<close>
  "capitalize s = (case s of [] \<Rightarrow> [] | c # cs \<Rightarrow> upper_char c # lower cs)"

definition strip :: "string \<Rightarrow> string" where
  \<comment> \<open>\<open>str.strip()\<close>: leading and trailing whitespace removed\<close>
  "strip s = rev (dropWhile is_space (rev (dropWhile is_space s)))"

fun join :: "string \<Rightarrow> string list \<Rightarrow> string" where
  \<comment> \<open>\<open>sep.join(xs)\<close>\<close>
  "join sep [] = []"
| "join sep [x] = x"
| "join sep (x # y # ys) = x @ sep @ join sep (y # ys)"

fun split_run :: "string \<Rightarrow> string \<Rightarrow> string list" where
  \<comment> \<open>\<open>str.split()\<close> with no separator: the maximal runs of non-whitespace, in order.
     The first argument is the run being read.\<close>
  "split_run w [] = (if w = [] then [] else [w])"
| "split_run w (c # cs) =
     (if is_space c then (if w = [] then split_run [] cs else w # split_run [] cs)
      else split_run (w @ [c]) cs)"

definition str_split :: "string \<Rightarrow> string list" where
  "str_split s = split_run [] s"

function split_sep :: "string \<Rightarrow> string \<Rightarrow> string list" where
  \<comment> \<open>\<open>s.split(sep)\<close> for a non-empty separator: cut at each occurrence of \<open>sep\<close>,
     scanning from the left, occurrences not overlapping\<close>
  "split_sep sep [] = [[]]"
| "split_sep sep (c # cs) =
     (if sep \<noteq> [] \<and> take (length sep) (c # cs) = sep
      then [] # split_sep sep (drop (length sep) (c # cs))
      else (case split_sep sep cs of r # rs \<Rightarrow> (c # r) # rs | [] \<Rightarrow> [[c]]))"
  by pat_completeness auto
termination
  by (relation "measure (\<lambda>(sep, s). length s)") auto

function replace :: "string \<Rightarrow> string \<Rightarrow> string \<Rightarrow> string" where
  \<comment> \<open>\<open>s.replace(old, new)\<close> for a non-empty \<open>old\<close>: every occurrence, from the left\<close>
  "replace old new [] = []"
| "replace old new (c # cs) =
     (if old \<noteq> [] \<and> take (length old) (c # cs) = old
      then new @ replace old new (drop (length old) (c # cs))
      else c # replace old new cs)"
  by pat_completeness auto
termination
  by (relation "measure (\<lambda>(old, new, s). length s)") auto

section \<open>Video identifier extraction\<close>

text \<open>
  \<^verbatim>\<open>pattern = r"(?:v=|\/)([0-9A-Za-z_-]{11})"; match = re.search(pattern, url)\<close>

  \<open>id_char\<close> is the character class, \<open>capture\<close> the group of eleven class
  characters, \<open>match_here\<close> the pattern anchored at the start of a string (the
  alternation tries \<open>v=\<close> first and \<open>/\<close> second), and \<open>re_search\<close> the
  scan of \<open>re.search\<close> over the start positions from the left.
\<close>

definition id_char :: "char \<Rightarrow> bool" where
  "id_char c \<longleftrightarrow> c \<in> set (''0123456789'' @ ''ABCDEFGHIJKLMNOPQRSTUVWXYZ''
                            @ ''abcdefghijklmnopqrstuvwxyz'' @ ''_-'')"

definition capture :: "string \<Rightarrow> string option" where
  "capture s =
     (if 11 \<le> length s \<and> list_all id_char (take 11 s) then Some (take 11 s) else None)"

definition match_here :: "string \<Rightarrow> string option" where
  "match_here s =
     (case (if take 2 s = ''v='' then capture (drop 2 s) else None) of
        Some g \<Rightarrow> Some g
      | None \<Rightarrow> (if take 1 s = ''/'' then capture (drop 1 s) else None))"

fun re_search :: "string \<Rightarrow> string option" where
  "re_search [] = match_here []"
| "re_search (c # cs) =
     (case match_here (c # cs) of Some g \<Rightarrow> Some g | None \<Rightarrow> re_search cs)"

definition extract_video_id :: "string \<Rightarrow> string option" where
  "extract_video_id url = re_search url"

section \<open>Chunked transcription\<close>

text \<open>
  Lines 98 to 126 of \<open>transcribe_audio\<close>. The audio buffer enters through
  \<open>total_len = len(audio)\<close>, its length in milliseconds, and through the
  recogniser: \<open>rec (start, stop)\<close> is what
  \<open>recognizer.recognize_google\<close> does on the chunk \<open>audio[start:stop]\<close>:
  it returns a text, raises \<open>sr.UnknownValueError\<close>, or raises
  \<open>sr.RequestError\<close> with a message.
\<close>

datatype recognition = Recognized string | UnknownValueError | RequestError string

definition chunk_ms :: nat where
  "chunk_ms = 30000"

definition max_chunks :: nat where
  "max_chunks = 10"

definition cross_mark :: string where
  \<comment> \<open>the cross mark U+274C that starts every error string, in UTF-8\<close>
  "cross_mark = [CHR 0xE2, CHR 0x9D, CHR 0x8C]"

fun str_nat :: "nat \<Rightarrow> string" where
  \<comment> \<open>\<open>str(n)\<close>, as \<open>format\<close> prints a non-negative integer\<close>
  "str_nat n =
     (if n < 10 then [''0123456789'' ! n]
      else str_nat (n div 10) @ [''0123456789'' ! (n mod 10)])"

declare str_nat.simps [simp del]

fun recognize_chunks ::
  "(nat \<times> nat \<Rightarrow> recognition) \<Rightarrow> nat \<Rightarrow> nat list \<Rightarrow> string list \<Rightarrow> string + string list"
where
  \<comment> \<open>the \<open>for\<close> loop over the chunk indices; \<open>Inl\<close> is the \<open>return\<close> inside
     the loop, \<open>Inr\<close> the list \<open>texts\<close> when the loop ends\<close>
  "recognize_chunks rec total_len [] texts = Inr texts"
| "recognize_chunks rec total_len (i # rest) texts =
     (let start = i * chunk_ms;
          stop = min (start + chunk_ms) total_len
      in case rec (start, stop) of
           Recognized part \<Rightarrow> recognize_chunks rec total_len rest (texts @ [part])
         | RequestError e \<Rightarrow> Inl (cross_mark @ '' recognition request failed: '' @ e)
         | UnknownValueError \<Rightarrow>
             recognize_chunks rec total_len rest (texts @ [''[Unintelligible]'']))"

definition transcribe_chunks :: "(nat \<times> nat \<Rightarrow> recognition) \<Rightarrow> nat \<Rightarrow> string" where
  "transcribe_chunks rec total_len =
     (let num_chunks = (total_len + chunk_ms - 1) div chunk_ms
      in case recognize_chunks rec total_len [0..<min num_chunks max_chunks] [] of
           Inl err \<Rightarrow> err
         | Inr texts \<Rightarrow>
             (let result = join '' '' texts
              in if num_chunks > max_chunks
                 then result @ '' [Note: Transcript truncated - first ''
                        @ str_nat (max_chunks * (chunk_ms div 1000)) @ '' seconds only]''
                 else result))"

text \<open>
  The windows the loop visits, for stating what it does: window \<open>i\<close> is
  \<open>(i * chunk_ms, min (i * chunk_ms + chunk_ms) total_len)\<close>.
\<close>

definition window :: "nat \<Rightarrow> nat \<Rightarrow> nat \<times> nat" where
  "window total_len i = (i * chunk_ms, min (i * chunk_ms + chunk_ms) total_len)"

definition windows :: "nat \<Rightarrow> (nat \<times> nat) list" where
  "windows total_len =
     map (window total_len) [0..<min ((total_len + chunk_ms - 1) div chunk_ms) max_chunks]"

section \<open>Decoding an upload, and its temporary files\<close>

text \<open>
  The whole of \<open>transcribe_audio\<close>. The file system is the set of paths that
  exist. What the libraries do is given by an environment: each call either
  returns or raises with a message. \<open>'a\<close> is the type of decoded audio
  (\<open>pydub.AudioSegment\<close>); \<open>hears a\<close> is the recogniser on the chunks of
  the buffer \<open>a\<close>.
\<close>

datatype 'a outcome = Raises string | Returns 'a

record 'a environment =
  tmp_stem :: string
    \<comment> \<open>the path \<open>NamedTemporaryFile\<close> picks, without its suffix\<close>
  write_upload :: "unit outcome"
    \<comment> \<open>\<open>tmp_file.write(audio_file.getbuffer())\<close>\<close>
  open_video :: "unit outcome"
    \<comment> \<open>\<open>VideoFileClip(temp_path)\<close>\<close>
  has_audio :: bool
    \<comment> \<open>\<open>video.audio is not None\<close>\<close>
  write_audiofile :: "unit outcome"
    \<comment> \<open>\<open>audio_clip.write_audiofile(wav_path)\<close>\<close>
  partial_wav :: bool
    \<comment> \<open>when \<open>write_audiofile\<close> raises: whether it had created the file by then\<close>
  close_video :: "unit outcome"
    \<comment> \<open>\<open>video.close()\<close>\<close>
  from_file :: "string \<Rightarrow> 'a outcome"
    \<comment> \<open>\<open>AudioSegment.from_file(path)\<close>\<close>
  from_mp3 :: "string \<Rightarrow> 'a outcome"
  from_wav :: "string \<Rightarrow> 'a outcome"
  from_ogg :: "string \<Rightarrow> 'a outcome"
  from_file_format :: "string \<Rightarrow> string \<Rightarrow> 'a outcome"
    \<comment> \<open>\<open>AudioSegment.from_file(path, format=file_ext)\<close>\<close>
  set_frame_rate :: "nat \<Rightarrow> 'a \<Rightarrow> 'a"
  set_channels :: "nat \<Rightarrow> 'a \<Rightarrow> 'a"
  len :: "'a \<Rightarrow> nat"
    \<comment> \<open>\<open>len(audio)\<close>: milliseconds\<close>
  hears :: "'a \<Rightarrow> nat \<times> nat \<Rightarrow> recognition"
  unlink_ok :: "string \<Rightarrow> bool"
    \<comment> \<open>whether \<open>os.unlink(path)\<close> removes the file; when it raises, the
       \<open>except: pass\<close> around it swallows the exception\<close>

definition unlink :: "'a environment \<Rightarrow> string \<Rightarrow> string set \<Rightarrow> string set" where
  "unlink env path fs = (if unlink_ok env path then fs - {path} else fs)"

definition video_exts :: "string list" where
  "video_exts = [''mp4'', ''avi'', ''mov'', ''mkv'', ''flv'', ''wmv'', ''webm'']"

definition cannot_extract :: "string \<Rightarrow> string \<Rightarrow> string" where
  "cannot_extract file_ext e =
     cross_mark @ '' Cannot extract audio from '' @ upper file_ext @ '': '' @ e"

definition extract_audio ::
  "'a environment \<Rightarrow> string \<Rightarrow> string \<Rightarrow> string set \<Rightarrow> (string + 'a) \<times> string set"
where
  \<comment> \<open>the video branch, lines 55 to 72: \<open>Inl\<close> is the error string it returns,
     \<open>Inr\<close> the decoded audio it goes on with\<close>
  "extract_audio env file_ext temp_path fs =
     (case open_video env of
        Raises e \<Rightarrow> (Inl (cannot_extract file_ext e), fs)
      | Returns _ \<Rightarrow>
          if \<not> has_audio env
          then (Inl (cross_mark @ '' No audio track found in video file''), fs)
          else
            (let wav_path = replace (''.'' @ file_ext) ''_audio.wav'' temp_path
             in case write_audiofile env of
                  Raises e \<Rightarrow>
                    (Inl (cannot_extract file_ext e),
                     if partial_wav env then insert wav_path fs else fs)
                | Returns _ \<Rightarrow>
                    (let fs1 = insert wav_path fs
                     in case close_video env of
                          Raises e \<Rightarrow> (Inl (cannot_extract file_ext e), fs1)
                        | Returns _ \<Rightarrow>
                            (case from_file env wav_path of
                               Raises e \<Rightarrow> (Inl (cannot_extract file_ext e), fs1)
                             | Returns audio \<Rightarrow> (Inr audio, unlink env wav_path fs1)))))"

definition load_audio :: "'a environment \<Rightarrow> string \<Rightarrow> string \<Rightarrow> string + 'a" where
  \<comment> \<open>the audio branch, lines 76 to 90\<close>
  "load_audio env file_ext temp_path =
     (case from_file env temp_path of
        Returns audio \<Rightarrow> Inr audio
      | Raises _ \<Rightarrow>
          (case (if file_ext = ''mp3'' then from_mp3 env temp_path
                 else if file_ext = ''wav'' then from_wav env temp_path
                 else if file_ext = ''ogg'' then from_ogg env temp_path
                 else from_file_format env temp_path file_ext) of
             Returns audio \<Rightarrow> Inr audio
           | Raises e \<Rightarrow> Inl (cross_mark @ '' Cannot load audio file: '' @ e)))"

text \<open>
  \<open>transcribe_audio env filename fs\<close> is the string returned and the file system
  left behind. The temporary file exists from \<open>NamedTemporaryFile(delete=False)\<close>
  on; a failing \<open>write\<close> leaves through the outer \<open>except Exception\<close>, before
  the \<open>try ... finally\<close> that unlinks \<open>temp_path\<close> is entered. The test
  \<open>audio is None\<close> of line 92 cannot succeed after either branch and is left out.
\<close>

definition transcribe_audio ::
  "'a environment \<Rightarrow> string \<Rightarrow> string set \<Rightarrow> string \<times> string set"
where
  "transcribe_audio env filename fs =
     (let file_ext = lower (last (split_sep ''.'' filename));
          temp_path = tmp_stem env @ ''.'' @ file_ext;
          fs1 = insert temp_path fs
      in case write_upload env of
           Raises e \<Rightarrow> (cross_mark @ '' Error: '' @ e, fs1)
         | Returns _ \<Rightarrow>
             (let (loaded, fs2) =
                    (if lower file_ext \<in> set video_exts
                     then extract_audio env file_ext temp_path fs1
                     else (load_audio env file_ext temp_path, fs1));
                  result =
                    (case loaded of
                       Inl err \<Rightarrow> err
                     | Inr audio0 \<Rightarrow>
                         (let audio = set_channels env 1 (set_frame_rate env 16000 audio0)
                          in transcribe_chunks (hears env audio) (len env audio)))
              in (result, unlink env temp_path fs2)))"

section \<open>Notes and quiz\<close>

text \<open>
  \<open>generate_ai_notes\<close>. The summariser is a parameter that returns a summary or
  raises. \<open>set(...)\<close> iterates in an order the program does not fix: the
  parameter \<open>set_order\<close> takes the words and returns the set's elements in the
  order of iteration (each word once).
\<close>

datatype py_error = IndexError | PipelineError string

definition truncate_transcript :: "string \<Rightarrow> string" where
  \<comment> \<open>lines 151 to 153: the value of \<open>transcript\<close> from line 154 on\<close>
  "truncate_transcript transcript =
     (let words = str_split transcript
      in if length words > 900 then join '' '' (take 900 words) else transcript)"

definition key_points :: "string \<Rightarrow> string list" where
  \<comment> \<open>lines 163 and 164\<close>
  "key_points transcript =
     (let sentences = split_sep ''. '' transcript
      in [strip s @ ''.''. s \<leftarrow> take 5 sentences, length (strip s) > 20])"

definition bullet :: string where
  \<comment> \<open>the bullet U+2022, in UTF-8\<close>
  "bullet = [CHR 0xE2, CHR 0x80, CHR 0xA2]"

definition bullet_points :: "string \<Rightarrow> string" where
  "bullet_points transcript =
     join [CHR 0x0A] (map (\<lambda>point. bullet @ '' '' @ point) (key_points transcript))"

definition important_words :: "(string list \<Rightarrow> string list) \<Rightarrow> string \<Rightarrow> string list" where
  \<comment> \<open>line 168: \<open>sorted(..., key=len, reverse=True)\<close> is stable, so words of equal
     length stay in the set's order\<close>
  "important_words order transcript =
     take 10 (sort_key (\<lambda>w. - int (length w)) (order (str_split (lower transcript))))"

definition item :: "'a list \<Rightarrow> nat \<Rightarrow> py_error + 'a" where
  \<comment> \<open>\<open>xs[i]\<close> for \<open>i \<ge> 0\<close>\<close>
  "item xs i = (if i < length xs then Inr (xs ! i) else Inl IndexError)"

definition clipboard :: string where
  \<comment> \<open>U+1F4CB, in UTF-8\<close>
  "clipboard = [CHR 0xF0, CHR 0x9F, CHR 0x93, CHR 0x8B]"

definition memo :: string where
  \<comment> \<open>U+1F4DD, in UTF-8\<close>
  "memo = [CHR 0xF0, CHR 0x9F, CHR 0x93, CHR 0x9D]"

definition lines :: "string list \<Rightarrow> string" where
  \<comment> \<open>the text of a triple-quoted template: every line followed by a newline\<close>
  "lines ls = concat (map (\<lambda>l. l @ [CHR 0x0A]) ls)"

definition quiz_text :: "string \<Rightarrow> string \<Rightarrow> string \<Rightarrow> string \<Rightarrow> string" where
  \<comment> \<open>the template of lines 169 to 186, with its four holes\<close>
  "quiz_text a1 b1 a2 b2 = lines
     ['''',
      ''## '' @ clipboard @ '' Test Your Knowledge'',
      '''',
      ''1. **What was the main topic discussed?**'',
      ''   - a) '' @ a1,
      ''   - b) '' @ b1,
      ''   - c) General information'',
      ''   - **Answer: a**'',
      '''',
      ''2. **Key concepts mentioned:**'',
      ''   - a) '' @ a2,
      ''   - b) '' @ b2,
      ''   - c) Both of the above'',
      ''   - **Answer: c**'',
      '''',
      ''3. **True or False: The transcript covered important details.**'',
      ''   - **Answer: True**'']"

definition quiz_questions :: "string list \<Rightarrow> py_error + string" where
  \<comment> \<open>the holes are evaluated from the first to the last; the first two index the
     list with no test of its length\<close>
  "quiz_questions ws =
     (case item ws 0 of
        Inl e \<Rightarrow> Inl e
      | Inr w0 \<Rightarrow>
     (case item ws 1 of
        Inl e \<Rightarrow> Inl e
      | Inr w1 \<Rightarrow>
     (case (if length ws > 2 then map_sum id capitalize (item ws 2) else Inr ''Topic'') of
        Inl e \<Rightarrow> Inl e
      | Inr a2 \<Rightarrow>
     (case (if length ws > 3 then map_sum id capitalize (item ws 3) else Inr ''Discussion'') of
        Inl e \<Rightarrow> Inl e
      | Inr b2 \<Rightarrow> Inr (quiz_text (capitalize w0) (capitalize w1) a2 b2)))))"

definition notes_text :: "string \<Rightarrow> string \<Rightarrow> string \<Rightarrow> string" where
  \<comment> \<open>the template of lines 188 to 198\<close>
  "notes_text summary_text bullets quiz = lines
     ['''',
      ''## '' @ memo @ '' Study Notes'',
      '''',
      ''### Executive Summary'',
      summary_text,
      '''',
      ''### Key Points'',
      bullets,
      '''',
      quiz]"

record notes_environment =
  load_summarizer :: "unit outcome"
    \<comment> \<open>\<open>pipeline("summarization", ...)\<close>, outside any \<open>try\<close>\<close>
  summarizer :: "string \<Rightarrow> string outcome"
    \<comment> \<open>\<open>summarizer(transcript, ...)[0]['summary_text']\<close>\<close>
  set_order :: "string list \<Rightarrow> string list"

definition generate_ai_notes :: "notes_environment \<Rightarrow> string \<Rightarrow> py_error + string" where
  "generate_ai_notes env transcript0 =
     (case load_summarizer env of
        Raises e \<Rightarrow> Inl (PipelineError e)
      | Returns _ \<Rightarrow>
          (let transcript = truncate_transcript transcript0;
               summary_text =
                 (case summarizer env transcript of
                    Returns s \<Rightarrow> s
                  | Raises _ \<Rightarrow> ''Summary could not be generated.'')
           in case quiz_questions (important_words (set_order env) transcript) of
                Inl e \<Rightarrow> Inl e
              | Inr quiz \<Rightarrow> Inr (notes_text summary_text (bullet_points transcript) quiz)))"

section \<open>Captions of a YouTube video\<close>

text \<open>
  The handler of the second tab, lines 252 to 290. In \<open>youtube_transcript_api\<close>
  the classes \<open>NoTranscriptFound\<close>, \<open>TranscriptsDisabled\<close> and
  \<open>VideoUnavailable\<close> derive from \<open>CouldNotRetrieveTranscript\<close>, so the
  handler of line 263 catches every exception of the library;
  \<open>CouldNotRetrieveTranscript msg\<close> stands for one that is none of the three.
  A caption track is given by what its \<open>fetch()\<close> does: it raises, or returns
  the texts of its items.
\<close>

datatype yt_exception =
    TranscriptsDisabled
  | NoTranscriptFound
  | VideoUnavailable
  | CouldNotRetrieveTranscript string
  | OtherException string

type_synonym track = "yt_exception + string list"

record youtube_environment =
  fetch :: "string \<Rightarrow> yt_exception + string list"
    \<comment> \<open>\<open>ytt.fetch(video_id)\<close>\<close>
  list_transcripts :: "string \<Rightarrow> yt_exception + track list"
    \<comment> \<open>\<open>ytt.list(video_id)\<close>\<close>

definition caught_for_fallback :: "yt_exception \<Rightarrow> bool" where
  \<comment> \<open>\<open>except (NoTranscriptFound, CouldNotRetrieveTranscript, TranscriptsDisabled)\<close>\<close>
  "caught_for_fallback e = (case e of OtherException _ \<Rightarrow> False | _ \<Rightarrow> True)"

fun fetch_any :: "track list \<Rightarrow> string list option \<Rightarrow> string list option" where
  \<comment> \<open>the loop of lines 267 to 273; the second argument is the variable \<open>data\<close>\<close>
  "fetch_any [] data = data"
| "fetch_any (t # ts) data =
     (case t of
        Inr fetched \<Rightarrow> if fetched \<noteq> [] then Some fetched else fetch_any ts (Some fetched)
      | Inl _ \<Rightarrow> fetch_any ts data)"

definition fetch_transcript :: "youtube_environment \<Rightarrow> string \<Rightarrow> yt_exception + string list" where
  "fetch_transcript env video_id =
     (case fetch env video_id of
        Inr data \<Rightarrow> Inr data
      | Inl e \<Rightarrow>
          if caught_for_fallback e
          then (case list_transcripts env video_id of
                  Inl e' \<Rightarrow> Inl e'
                | Inr transcripts \<Rightarrow>
                    (case fetch_any transcripts None of
                       None \<Rightarrow> Inl e
                     | Some data \<Rightarrow> Inr data))
          else Inl e)"

datatype shown = Retrieved string | Error string

definition report :: "yt_exception \<Rightarrow> string" where
  \<comment> \<open>the handlers of lines 281 to 288, in their order\<close>
  "report e =
     (case e of
        TranscriptsDisabled \<Rightarrow> ''Transcripts are disabled for this video.''
      | VideoUnavailable \<Rightarrow>
          ''Video unavailable '' @ [CHR 0xE2, CHR 0x80, CHR 0x94]
            @ '' check the URL or region restrictions.''
      | NoTranscriptFound \<Rightarrow>
          ''No transcript found for this video. It may not have captions (CC).''
      | CouldNotRetrieveTranscript msg \<Rightarrow> ''Could not get transcript: '' @ msg
      | OtherException msg \<Rightarrow> ''Could not get transcript: '' @ msg)"

definition youtube_handler :: "youtube_environment \<Rightarrow> string \<Rightarrow> shown" where
  \<comment> \<open>\<open>Retrieved\<close> is the value of \<open>transcript_text\<close> after \<open>st.success\<close>,
     \<open>Error\<close> the message of \<open>st.error\<close>\<close>
  "youtube_handler env yt_url =
     (case extract_video_id yt_url of
        None \<Rightarrow> Error ''Invalid YouTube URL.''
      | Some video_id \<Rightarrow>
          (case fetch_transcript env video_id of
             Inr data \<Rightarrow> Retrieved (join '' '' data)
           | Inl e \<Rightarrow> Error (report e)))"

section \<open>Notions used to state the properties\<close>

text \<open>
  \<open>occurs_at url i ident\<close>: at offset \<open>i\<close> of \<open>url\<close> stands \<open>v=\<close> or
  \<open>/\<close>, and right after it the eleven identifier characters \<open>ident\<close>.
\<close>

definition occurs_at :: "string \<Rightarrow> nat \<Rightarrow> string \<Rightarrow> bool" where
  "occurs_at url i ident \<longleftrightarrow>
     length ident = 11 \<and> list_all id_char ident \<and>
     (take 13 (drop i url) = ''v='' @ ident \<or> take 12 (drop i url) = ''/'' @ ident)"

text \<open>
  \<open>request_failed r\<close>: the recognition raised \<open>sr.RequestError\<close>.
  \<open>chunk_text r\<close>: the text a window with outcome \<open>r\<close> adds to \<open>texts\<close>
  (read only where the request did not fail).
\<close>

definition request_failed :: "recognition \<Rightarrow> bool" where
  "request_failed r = (case r of RequestError _ \<Rightarrow> True | _ \<Rightarrow> False)"

definition chunk_text :: "recognition \<Rightarrow> string" where
  "chunk_text r =
     (case r of
        Recognized part \<Rightarrow> part
      | UnknownValueError \<Rightarrow> ''[Unintelligible]''
      | RequestError _ \<Rightarrow> [])"

text \<open>
  Two concrete environments, for running the functions. In \<open>undecodable_video\<close>
  decoded audio is its length in milliseconds, every call of the video library
  succeeds, every \<open>os.unlink\<close> succeeds, and \<open>AudioSegment.from_file\<close>
  raises. In \<open>plain_notes\<close> the summariser returns a fixed text and the set is
  iterated in the order of first occurrence.
\<close>

definition undecodable_video :: "nat environment" where
  "undecodable_video =
     \<lparr>tmp_stem = ''/tmp/tmpab12cd34'',
      write_upload = Returns (),
      open_video = Returns (),
      has_audio = True,
      write_audiofile = Returns (),
      partial_wav = False,
      close_video = Returns (),
      from_file = (\<lambda>path. Raises ''decoding failed''),
      from_mp3 = (\<lambda>path. Raises ''decoding failed''),
      from_wav = (\<lambda>path. Raises ''decoding failed''),
      from_ogg = (\<lambda>path. Raises ''decoding failed''),
      from_file_format = (\<lambda>path ext. Raises ''decoding failed''),
      set_frame_rate = (\<lambda>rate a. a),
      set_channels = (\<lambda>n a. a),
      len = (\<lambda>a. a),
      hears = (\<lambda>a w. Recognized ''words''),
      unlink_ok = (\<lambda>path. True)\<rparr>"

definition plain_notes :: notes_environment where
  "plain_notes =
     \<lparr>load_summarizer = Returns (),
      summarizer = (\<lambda>text. Returns ''A summary.''),
      set_order = remdups\<rparr>"

text \<open>
  \<open>quiz_words order transcript0\<close>: the value of \<open>important_words\<close> at line 168
  in the call \<open>generate_ai_notes(transcript0)\<close>, when the set is iterated in the
  order \<open>order\<close>.
\<close>

definition quiz_words :: "(string list \<Rightarrow> string list) \<Rightarrow> string \<Rightarrow> string list" where
  "quiz_words order transcript0 = important_words order (truncate_transcript transcript0)"

text \<open>
  \<open>decoded_audio env filename fs\<close>: what the call of \<open>transcribe_audio\<close> on an
  upload named \<open>filename\<close> holds when it leaves the branch of lines 54 to 90:
  \<open>Inr\<close> the value of \<open>audio\<close> that the video branch or the audio branch has
  decoded, \<open>Inl\<close> the error string with which the branch has returned.
  \<open>normalized env audio0\<close>: the value of \<open>audio\<close> after line 96.
\<close>

definition decoded_audio :: "'a environment \<Rightarrow> string \<Rightarrow> string set \<Rightarrow> string + 'a" where
  "decoded_audio env filename fs =
     (let file_ext = lower (last (split_sep ''.'' filename));
          temp_path = tmp_stem env @ ''.'' @ file_ext
      in if lower file_ext \<in> set video_exts
         then fst (extract_audio env file_ext temp_path (insert temp_path fs))
         else load_audio env file_ext temp_path)"

definition normalized :: "'a environment \<Rightarrow> 'a \<Rightarrow> 'a" where
  "normalized env audio0 = set_channels env 1 (set_frame_rate env 16000 audio0)"

text \<open>
  \<open>recording ms rec\<close>: an environment for running \<open>transcribe_audio\<close> on an
  audio upload. Decoded audio is its length in milliseconds, every loader returns
  audio of \<open>ms\<close> milliseconds, normalisation keeps the length, and the recogniser
  answers \<open>rec\<close> on each window.
\<close>

definition recording :: "nat \<Rightarrow> (nat \<times> nat \<Rightarrow> recognition) \<Rightarrow> nat environment" where
  "recording ms rec =
     \<lparr>tmp_stem = ''/tmp/tmpab12cd34'',
      write_upload = Returns (),
      open_video = Returns (),
      has_audio = True,
      write_audiofile = Returns (),
      partial_wav = False,
      close_video = Returns (),
      from_file = (\<lambda>path. Returns ms),
      from_mp3 = (\<lambda>path. Returns ms),
      from_wav = (\<lambda>path. Returns ms),
      from_ogg = (\<lambda>path. Returns ms),
      from_file_format = (\<lambda>path ext. Returns ms),
      set_frame_rate = (\<lambda>rate a. a),
      set_channels = (\<lambda>n a. a),
      len = (\<lambda>a. a),
      hears = (\<lambda>a. rec),
      unlink_ok = (\<lambda>path. True)\<rparr>"

text \<open>
  \<open>long_transcript\<close>: a transcript of 901 words, \<open>a bb\<close> 450 times and then
  \<open>extraordinary\<close>.
\<close>

definition long_transcript :: string where
  "long_transcript = concat (replicate 450 ''a bb '') @ ''extraordinary''"

text \<open>
  For a caption track \<open>t\<close>: \<open>raises t\<close> when its \<open>fetch()\<close> raises,
  \<open>has_text t\<close> when its \<open>fetch()\<close> returns at least one item, which is
  the test \<open>if data\<close> of line 270. \<open>captions e tracks\<close> is an environment
  for running the handler: the default fetch raises \<open>e\<close>, and the listing gives
  \<open>tracks\<close>.
\<close>

definition has_text :: "track \<Rightarrow> bool" where
  "has_text t = (case t of Inr data \<Rightarrow> data \<noteq> [] | Inl _ \<Rightarrow> False)"

definition raises :: "track \<Rightarrow> bool" where
  "raises t = (case t of Inr _ \<Rightarrow> False | Inl _ \<Rightarrow> True)"

definition captions :: "yt_exception \<Rightarrow> track list \<Rightarrow> youtube_environment" where
  "captions e tracks =
     \<lparr>fetch = (\<lambda>video_id. Inl e), list_transcripts = (\<lambda>video_id. Inr tracks)\<rparr>"

section \<open>Video identifier extraction: proofs\<close>

lemma capture_Some:
  "capture s = Some g \<longleftrightarrow> length g = 11 \<and> list_all id_char g \<and> (\<exists>suf. s = g @ suf)"
proof
  assume "capture s = Some g"
  then have g: "g = take 11 s" and l: "11 \<le> length s" and a: "list_all id_char (take 11 s)"
    by (auto simp: capture_def split: if_splits)
  have "s = g @ drop 11 s" using g by simp
  then have "\<exists>suf. s = g @ suf" ..
  with g l a show "length g = 11 \<and> list_all id_char g \<and> (\<exists>suf. s = g @ suf)"
    by simp
next
  assume "length g = 11 \<and> list_all id_char g \<and> (\<exists>suf. s = g @ suf)"
  then show "capture s = Some g" by (auto simp: capture_def)
qed

lemma take_eq_prefix: "take (length p) s = p \<longleftrightarrow> (\<exists>r. s = p @ r)"
  by (metis append_eq_conv_conj append_take_drop_id)

lemma match_here_Some:
  "match_here s = Some g \<longleftrightarrow>
     length g = 11 \<and> list_all id_char g \<and> (\<exists>p suf. (p = ''v='' \<or> p = ''/'') \<and> s = p @ g @ suf)"
  (is "?L \<longleftrightarrow> ?R")
proof
  assume L: ?L
  show ?R
  proof (cases "take 2 s = ''v='' \<and> capture (drop 2 s) = Some g")
    case True
    then obtain suf where g: "length g = 11" "list_all id_char g" "drop 2 s = g @ suf"
      by (auto simp: capture_Some)
    have "s = take 2 s @ drop 2 s" by simp
    with True g have "s = ''v='' @ g @ suf" by metis
    with g show ?thesis by blast
  next
    case False
    with L have t: "take 1 s = ''/''" and c: "capture (drop 1 s) = Some g"
      by (auto simp: match_here_def split: option.splits if_splits)
    then obtain suf where g: "length g = 11" "list_all id_char g" "drop 1 s = g @ suf"
      by (auto simp: capture_Some)
    have "s = take 1 s @ drop 1 s" by simp
    with t g have "s = ''/'' @ g @ suf" by metis
    with g show ?thesis by blast
  qed
next
  assume R: ?R
  then obtain p suf where g: "length g = 11" "list_all id_char g"
    and p: "p = ''v='' \<or> p = ''/''" and s: "s = p @ g @ suf" by blast
  have c: "capture (g @ suf) = Some g" using g by (auto simp: capture_Some)
  from p show ?L
  proof
    assume "p = ''v=''"
    with s c show ?L by (simp add: match_here_def)
  next
    assume "p = ''/''"
    with s c show ?L by (simp add: match_here_def)
  qed
qed

lemma re_search_None:
  "re_search s = None \<longleftrightarrow> (\<forall>i\<le>length s. match_here (drop i s) = None)"
proof (induction s)
  case Nil
  then show ?case by simp
next
  case (Cons c cs)
  show ?case
  proof
    assume a: "re_search (c # cs) = None"
    then have m: "match_here (c # cs) = None" and r: "re_search cs = None"
      by (auto split: option.splits)
    show "\<forall>i\<le>length (c # cs). match_here (drop i (c # cs)) = None"
    proof (intro allI impI)
      fix i assume "i \<le> length (c # cs)"
      then show "match_here (drop i (c # cs)) = None"
        using m r Cons.IH by (cases i) auto
    qed
  next
    assume a: "\<forall>i\<le>length (c # cs). match_here (drop i (c # cs)) = None"
    then have "match_here (drop 0 (c # cs)) = None" by blast
    then have m: "match_here (c # cs) = None" by simp
    have "\<forall>i\<le>length cs. match_here (drop i cs) = None"
    proof (intro allI impI)
      fix i assume "i \<le> length cs"
      then have "match_here (drop (Suc i) (c # cs)) = None" using a by (metis Suc_le_mono length_Cons)
      then show "match_here (drop i cs) = None" by simp
    qed
    with Cons.IH m show "re_search (c # cs) = None" by simp
  qed
qed

lemma re_search_Some:
  "re_search s = Some g \<longleftrightarrow>
     (\<exists>i\<le>length s. match_here (drop i s) = Some g \<and> (\<forall>j<i. match_here (drop j s) = None))"
proof (induction s)
  case Nil
  then show ?case by auto
next
  case (Cons c cs)
  show ?case
  proof (cases "match_here (c # cs)")
    case (Some h)
    show ?thesis
    proof
      assume "re_search (c # cs) = Some g"
      with Some have "h = g" by simp
      with Some have "match_here (drop 0 (c # cs)) = Some g \<and> (\<forall>j<0. match_here (drop j (c # cs)) = None)"
        by simp
      then show "\<exists>i\<le>length (c # cs). match_here (drop i (c # cs)) = Some g \<and> (\<forall>j<i. match_here (drop j (c # cs)) = None)"
        by blast
    next
      assume "\<exists>i\<le>length (c # cs). match_here (drop i (c # cs)) = Some g \<and> (\<forall>j<i. match_here (drop j (c # cs)) = None)"
      then obtain i where i: "match_here (drop i (c # cs)) = Some g"
        "\<forall>j<i. match_here (drop j (c # cs)) = None" by blast
      have "i = 0"
      proof (rule ccontr)
        assume "i \<noteq> 0"
        then have "match_here (drop 0 (c # cs)) = None" using i(2) by blast
        with Some show False by simp
      qed
      with i Some show "re_search (c # cs) = Some g" by simp
    qed
  next
    case None
    then have r: "re_search (c # cs) = re_search cs" by simp
    show ?thesis
    proof
      assume "re_search (c # cs) = Some g"
      with r Cons.IH obtain i where i: "i \<le> length cs" "match_here (drop i cs) = Some g"
        "\<forall>j<i. match_here (drop j cs) = None" by auto
      have "\<forall>j<Suc i. match_here (drop j (c # cs)) = None"
      proof (intro allI impI)
        fix j assume "j < Suc i"
        then show "match_here (drop j (c # cs)) = None" using None i(3) by (cases j) auto
      qed
      with i have "Suc i \<le> length (c # cs) \<and> match_here (drop (Suc i) (c # cs)) = Some g
           \<and> (\<forall>j<Suc i. match_here (drop j (c # cs)) = None)" by simp
      then show "\<exists>i\<le>length (c # cs). match_here (drop i (c # cs)) = Some g \<and> (\<forall>j<i. match_here (drop j (c # cs)) = None)"
        by blast
    next
      assume "\<exists>i\<le>length (c # cs). match_here (drop i (c # cs)) = Some g \<and> (\<forall>j<i. match_here (drop j (c # cs)) = None)"
      then obtain i where i: "i \<le> length (c # cs)" "match_here (drop i (c # cs)) = Some g"
        "\<forall>j<i. match_here (drop j (c # cs)) = None" by blast
      from i(2) None obtain k where k: "i = Suc k" by (cases i) auto
      have "\<forall>j<k. match_here (drop j cs) = None"
      proof (intro allI impI)
        fix j assume "j < k"
        then have "match_here (drop (Suc j) (c # cs)) = None" using i(3) k by (metis Suc_less_eq)
        then show "match_here (drop j cs) = None" by simp
      qed
      with i k have "k \<le> length cs \<and> match_here (drop k cs) = Some g \<and> (\<forall>j<k. match_here (drop j cs) = None)"
        by simp
      then have "re_search cs = Some g" using Cons.IH by blast
      with r show "re_search (c # cs) = Some g" by simp
    qed
  qed
qed

lemma occurs_at_match_here:
  "occurs_at url i ident \<longleftrightarrow> match_here (drop i url) = Some ident"
proof -
  have a: "take 13 (drop i url) = ''v='' @ ident \<longleftrightarrow> (\<exists>suf. drop i url = ''v='' @ ident @ suf)"
    if "length ident = 11"
    using that take_eq_prefix [of "''v='' @ ident" "drop i url"] by simp
  have b: "take 12 (drop i url) = ''/'' @ ident \<longleftrightarrow> (\<exists>suf. drop i url = ''/'' @ ident @ suf)"
    if "length ident = 11"
    using that take_eq_prefix [of "''/'' @ ident" "drop i url"] by simp
  show ?thesis
    unfolding occurs_at_def match_here_Some using a b by blast
qed

lemma occurs_at_bound: "occurs_at url i ident \<Longrightarrow> i \<le> length url"
  by (rule ccontr) (auto simp: occurs_at_def)

lemma match_here_unique:
  "match_here s = Some g \<Longrightarrow> match_here s = Some h \<Longrightarrow> g = h"
  by simp

lemma extract_short_link: "extract_video_id ''https://youtu.be/dQw4w9WgXcQ'' = Some ''dQw4w9WgXcQ''"
  by (simp add: extract_video_id_def match_here_def capture_def id_char_def)

lemma extract_no_link: "extract_video_id ''not a link'' = None"
  by (simp add: extract_video_id_def match_here_def capture_def id_char_def)

lemma extract_path_segment: "extract_video_id ''https://youtube.com/embed_video/x?v=dQw4w9WgXcQ'' = Some ''embed_video''"
  by (simp add: extract_video_id_def match_here_def capture_def id_char_def)

lemma occurs_later: "occurs_at ''https://youtube.com/embed_video/x?v=dQw4w9WgXcQ'' 34 ''dQw4w9WgXcQ''"
  by (simp add: occurs_at_def id_char_def)

text \<open>
  Claim C6. For every input string, \<open>extract_video_id\<close> returns an identifier of
  eleven characters if and only if the string contains \<open>v=\<close> or \<open>/\<close>
  immediately followed by eleven characters of \<open>[0-9A-Za-z_-]\<close>; otherwise it
  returns \<open>None\<close>.
\<close>

theorem extract_video_id_iff:
  "((\<exists>ident. extract_video_id url = Some ident \<and> length ident = 11) \<longleftrightarrow>
      (\<exists>pre p ident suf. url = pre @ p @ ident @ suf \<and> (p = ''v='' \<or> p = ''/'')
          \<and> length ident = 11 \<and> list_all id_char ident))
   \<and> (extract_video_id url = None \<longleftrightarrow>
      \<not> (\<exists>pre p ident suf. url = pre @ p @ ident @ suf \<and> (p = ''v='' \<or> p = ''/'')
          \<and> length ident = 11 \<and> list_all id_char ident))"
proof -
  let ?P = "\<exists>pre p ident suf. url = pre @ p @ ident @ suf \<and> (p = ''v='' \<or> p = ''/'')
          \<and> length ident = 11 \<and> list_all id_char ident"
  have 1: "?P" if "extract_video_id url = Some ident" for ident
  proof -
    from that obtain i where "match_here (drop i url) = Some ident"
      unfolding extract_video_id_def re_search_Some by blast
    then obtain p suf where g: "length ident = 11" "list_all id_char ident"
      "p = ''v='' \<or> p = ''/''" and d: "drop i url = p @ ident @ suf"
      unfolding match_here_Some by blast
    have "url = take i url @ drop i url" by simp
    with d have "url = take i url @ p @ ident @ suf" by simp
    with g show ?thesis by blast
  qed
  have 2: "\<exists>ident. extract_video_id url = Some ident \<and> length ident = 11" if ?P
  proof -
    from that obtain pre p ident suf where u: "url = pre @ p @ ident @ suf"
      and g: "p = ''v='' \<or> p = ''/''" "length ident = 11" "list_all id_char ident" by blast
    have "drop (length pre) url = p @ ident @ suf" using u by simp
    then have m: "match_here (drop (length pre) url) = Some ident"
      unfolding match_here_Some using g by blast
    have "length pre \<le> length url" using u by simp
    with m have "re_search url \<noteq> None" unfolding re_search_None by auto
    then obtain h where h: "re_search url = Some h" by blast
    then obtain i where "match_here (drop i url) = Some h"
      unfolding re_search_Some by blast
    then have "length h = 11" unfolding match_here_Some by blast
    with h show ?thesis by (simp add: extract_video_id_def)
  qed
  have 3: "extract_video_id url = None \<longleftrightarrow> \<not> ?P"
  proof
    assume n: "extract_video_id url = None"
    show "\<not> ?P"
    proof
      assume ?P
      from 2 [OF this] n show False by simp
    qed
  next
    assume np: "\<not> ?P"
    show "extract_video_id url = None"
    proof (cases "extract_video_id url")
      case None then show ?thesis .
    next
      case (Some g)
      from 1 [OF this] np show ?thesis by blast
    qed
  qed
  have 4: "(\<exists>ident. extract_video_id url = Some ident \<and> length ident = 11) \<longleftrightarrow> ?P"
    using 1 2 by blast
  from 3 4 show ?thesis by blast
qed

theorem extract_video_id_iff_witness:
  "(\<exists>pre p ident suf. ''https://youtu.be/dQw4w9WgXcQ'' = pre @ p @ ident @ suf
        \<and> (p = ''v='' \<or> p = ''/'') \<and> length ident = 11 \<and> list_all id_char ident)
   \<and> extract_video_id ''https://youtu.be/dQw4w9WgXcQ'' = Some ''dQw4w9WgXcQ''
   \<and> \<not> (\<exists>pre p ident suf. ''not a link'' = pre @ p @ ident @ suf
        \<and> (p = ''v='' \<or> p = ''/'') \<and> length ident = 11 \<and> list_all id_char ident)
   \<and> extract_video_id ''not a link'' = None"
  using extract_video_id_iff [of "''https://youtu.be/dQw4w9WgXcQ''"]
    extract_video_id_iff [of "''not a link''"] extract_short_link extract_no_link
  by simp

text \<open>
  Claim C10. \<open>extract_video_id\<close> returns the capture of the leftmost occurrence:
  it returns \<open>ident\<close> exactly when \<open>ident\<close> occurs at some offset and nothing
  occurs at any smaller offset. The witness is a URL whose path has the segment
  \<open>embed_video\<close> before its \<open>v=\<close> parameter: the segment is returned.
\<close>

theorem extract_video_id_leftmost:
  "extract_video_id url = Some ident \<longleftrightarrow>
     (\<exists>i. occurs_at url i ident \<and> (\<forall>j<i. \<forall>g. \<not> occurs_at url j g))"
proof
  assume "extract_video_id url = Some ident"
  then obtain i where i: "match_here (drop i url) = Some ident"
    "\<forall>j<i. match_here (drop j url) = None"
    unfolding extract_video_id_def re_search_Some by blast
  then have "occurs_at url i ident \<and> (\<forall>j<i. \<forall>g. \<not> occurs_at url j g)"
    by (simp add: occurs_at_match_here)
  then show "\<exists>i. occurs_at url i ident \<and> (\<forall>j<i. \<forall>g. \<not> occurs_at url j g)" ..
next
  assume "\<exists>i. occurs_at url i ident \<and> (\<forall>j<i. \<forall>g. \<not> occurs_at url j g)"
  then obtain i where o: "occurs_at url i ident" and n: "\<forall>j<i. \<forall>g. \<not> occurs_at url j g"
    by blast
  have b: "i \<le> length url" using o by (rule occurs_at_bound)
  have "\<forall>j<i. match_here (drop j url) = None"
  proof (intro allI impI)
    fix j assume "j < i"
    with n have "\<forall>g. match_here (drop j url) \<noteq> Some g" by (simp add: occurs_at_match_here)
    then show "match_here (drop j url) = None" by (cases "match_here (drop j url)") auto
  qed
  with o b show "extract_video_id url = Some ident"
    unfolding extract_video_id_def re_search_Some occurs_at_match_here by blast
qed

theorem extract_video_id_leftmost_witness:
  "extract_video_id ''https://youtube.com/embed_video/x?v=dQw4w9WgXcQ'' = Some ''embed_video''
   \<and> occurs_at ''https://youtube.com/embed_video/x?v=dQw4w9WgXcQ'' 34 ''dQw4w9WgXcQ''
   \<and> (\<exists>i. occurs_at ''https://youtube.com/embed_video/x?v=dQw4w9WgXcQ'' i ''embed_video''
          \<and> (\<forall>j<i. \<forall>g. \<not> occurs_at ''https://youtube.com/embed_video/x?v=dQw4w9WgXcQ'' j g))"
  using extract_video_id_leftmost
      [of "''https://youtube.com/embed_video/x?v=dQw4w9WgXcQ''" "''embed_video''"]
    extract_path_segment occurs_later
  by simp

section \<open>Chunked transcription: proofs\<close>

lemma recognize_chunks_ok:
  "\<forall>i\<in>set idxs. \<not> request_failed (rec (window total_len i)) \<Longrightarrow>
   recognize_chunks rec total_len idxs texts =
     Inr (texts @ map (\<lambda>i. chunk_text (rec (window total_len i))) idxs)"
proof (induction idxs arbitrary: texts)
  case Nil
  then show ?case by simp
next
  case (Cons i rest)
  then have r: "\<forall>i\<in>set rest. \<not> request_failed (rec (window total_len i))" by simp
  from Cons.prems have "\<not> request_failed (rec (window total_len i))" by simp
  then show ?case
    using Cons.IH [OF r]
    by (cases "rec (window total_len i)")
       (simp_all add: window_def request_failed_def chunk_text_def Let_def)
qed

lemma recognize_chunks_failed:
  "\<forall>j\<in>set pre. \<not> request_failed (rec (window total_len j)) \<Longrightarrow>
   rec (window total_len i) = RequestError e \<Longrightarrow>
   recognize_chunks rec total_len (pre @ i # post) texts =
     Inl (cross_mark @ '' recognition request failed: '' @ e)"
proof (induction pre arbitrary: texts)
  case Nil
  then show ?case by (simp add: window_def Let_def)
next
  case (Cons j pre)
  then have r: "\<forall>j\<in>set pre. \<not> request_failed (rec (window total_len j))" by simp
  from Cons.prems have "\<not> request_failed (rec (window total_len j))" by simp
  then show ?case
    using Cons.IH [OF r Cons.prems(2)]
    by (cases "rec (window total_len j)")
       (simp_all add: window_def request_failed_def Let_def)
qed

lemma ceil_div: "- (- int n div 30000) = (int n + 29999) div 30000"
  by linarith

lemma num_chunks_ceiling:
  "nat \<lceil>real total_len / 1000 / 30\<rceil> = (total_len + chunk_ms - 1) div chunk_ms"
proof -
  have "real total_len / 1000 / 30 = of_int (int total_len) / of_int 30000" by simp
  then have "\<lceil>real total_len / 1000 / 30\<rceil> = - (- int total_len div 30000)"
    by (simp only: ceiling_divide_eq_div)
  also have "\<dots> = (int total_len + 29999) div 30000" by (rule ceil_div)
  finally have "nat \<lceil>real total_len / 1000 / 30\<rceil> = nat ((int total_len + 29999) div 30000)"
    by simp
  also have "\<dots> = (total_len + 29999) div 30000"
    by (simp add: nat_div_distrib nat_add_distrib)
  finally show ?thesis by (simp add: chunk_ms_def)
qed

lemma str_nat_300: "str_nat (max_chunks * (chunk_ms div 1000)) = ''300''"
proof -
  have "max_chunks * (chunk_ms div 1000) = 300" by (simp add: max_chunks_def chunk_ms_def)
  moreover have "str_nat 300 = ''300''"
    by (simp add: str_nat.simps [of 300] str_nat.simps [of 30] str_nat.simps [of 3])
  ultimately show ?thesis by simp
qed

lemma num_chunks_pos: "0 < total_len \<Longrightarrow> 0 < (total_len + chunk_ms - 1) div chunk_ms"
  by (simp add: chunk_ms_def div_greater_zero_iff)

lemma length_windows:
  "length (windows total_len) = min ((total_len + chunk_ms - 1) div chunk_ms) max_chunks"
  by (simp add: windows_def)

lemma nth_windows:
  "k < length (windows total_len) \<Longrightarrow> windows total_len ! k = window total_len k"
  by (simp add: windows_def)

lemma window_bounds:
  assumes "k < length (windows total_len)"
  shows "fst (window total_len k) = k * 30000"
    and "0 < snd (window total_len k) - fst (window total_len k)"
    and "snd (window total_len k) - fst (window total_len k) \<le> 30000"
    and "Suc k < length (windows total_len) \<Longrightarrow>
           snd (window total_len k) - fst (window total_len k) = 30000"
proof -
  from assms have k: "k < (total_len + 29999) div 30000"
    by (simp add: length_windows chunk_ms_def add.commute)
  then have lt: "k * 30000 < total_len" by linarith
  show "fst (window total_len k) = k * 30000" by (simp add: window_def chunk_ms_def)
  show "0 < snd (window total_len k) - fst (window total_len k)"
    using lt by (simp add: window_def chunk_ms_def min_def)
  show "snd (window total_len k) - fst (window total_len k) \<le> 30000"
    by (auto simp: window_def chunk_ms_def min_def)
  show "snd (window total_len k) - fst (window total_len k) = 30000"
    if "Suc k < length (windows total_len)"
  proof -
    from that have "Suc k < (total_len + 29999) div 30000"
      by (simp add: length_windows chunk_ms_def add.commute)
    then have "k + 1 < (total_len + 29999) div 30000" by simp
    then have "k * 30000 + 30000 < total_len" by linarith
    then show ?thesis by (simp add: window_def chunk_ms_def min_def)
  qed
qed

lemma transcribe_chunks_ok:
  assumes "\<forall>w\<in>set (windows total_len). \<not> request_failed (rec w)"
  shows "transcribe_chunks rec total_len =
           join '' '' (map (\<lambda>w. chunk_text (rec w)) (windows total_len))
           @ (if max_chunks < (total_len + chunk_ms - 1) div chunk_ms
              then '' [Note: Transcript truncated - first 300 seconds only]'' else [])"
proof -
  let ?n = "(total_len + chunk_ms - 1) div chunk_ms"
  from assms have "\<forall>i\<in>set [0..<min ?n max_chunks]. \<not> request_failed (rec (window total_len i))"
    by (simp add: windows_def)
  then have "recognize_chunks rec total_len [0..<min ?n max_chunks] [] =
      Inr (map (\<lambda>i. chunk_text (rec (window total_len i))) [0..<min ?n max_chunks])"
    using recognize_chunks_ok [of "[0..<min ?n max_chunks]" rec total_len "[]"] by simp
  moreover have "map (\<lambda>i. chunk_text (rec (window total_len i))) [0..<min ?n max_chunks]
      = map (\<lambda>w. chunk_text (rec w)) (windows total_len)"
    by (simp add: windows_def comp_def)
  ultimately show ?thesis
    by (simp add: transcribe_chunks_def Let_def str_nat_300)
qed

lemma transcribe_chunks_failed:
  assumes k: "k < length (windows total_len)"
    and before: "\<forall>j<k. \<not> request_failed (rec (windows total_len ! j))"
    and fails: "rec (windows total_len ! k) = RequestError e"
  shows "transcribe_chunks rec total_len = cross_mark @ '' recognition request failed: '' @ e"
proof -
  let ?n = "min ((total_len + chunk_ms - 1) div chunk_ms) max_chunks"
  from k have kn: "k < ?n" by (simp add: length_windows)
  then have split: "[0..<?n] = [0..<k] @ k # [Suc k..<?n]"
    by (metis le_add1 less_imp_add_positive upt_add_eq_append upt_conv_Cons zero_le)
  have b: "\<forall>j\<in>set [0..<k]. \<not> request_failed (rec (window total_len j))"
  proof
    fix j assume "j \<in> set [0..<k]"
    then have jk: "j < k" by simp
    with k have jl: "j < length (windows total_len)" by simp
    from before jk have "\<not> request_failed (rec (windows total_len ! j))" by blast
    with nth_windows [OF jl] show "\<not> request_failed (rec (window total_len j))"
      by simp
  qed
  from fails k have f: "rec (window total_len k) = RequestError e" by (simp add: nth_windows)
  have "recognize_chunks rec total_len [0..<?n] [] =
          Inl (cross_mark @ '' recognition request failed: '' @ e)"
    unfolding split by (rule recognize_chunks_failed [OF b f])
  then show ?thesis by (simp add: transcribe_chunks_def Let_def)
qed

lemma windows_301: "windows 301000 =
  [(0, 30000), (30000, 60000), (60000, 90000), (90000, 120000), (120000, 150000),
   (150000, 180000), (180000, 210000), (210000, 240000), (240000, 270000), (270000, 300000)]"
  by (simp add: windows_def window_def chunk_ms_def max_chunks_def upt_rec)

lemma windows_45: "windows 45000 = [(0, 30000), (30000, 45000)]"
  by (simp add: windows_def window_def chunk_ms_def max_chunks_def upt_rec)

lemma ceiling_301: "nat \<lceil>real 301000 / 1000 / 30\<rceil> = 11"
  unfolding num_chunks_ceiling by (simp add: chunk_ms_def)

lemma ceiling_45: "nat \<lceil>real 45000 / 1000 / 30\<rceil> = 2"
  unfolding num_chunks_ceiling by (simp add: chunk_ms_def)

lemma chunk_text_Unknown: "r = UnknownValueError \<Longrightarrow> chunk_text r = ''[Unintelligible]''"
  by (simp add: chunk_text_def)

lemma chunk_text_Recognized: "r = Recognized part \<Longrightarrow> chunk_text r = part"
  by (simp add: chunk_text_def)

lemma transcribe_audio_decoded:
  assumes "write_upload env = Returns ()"
    and "decoded_audio env filename fs = Inr audio0"
  shows "fst (transcribe_audio env filename fs) =
     transcribe_chunks (hears env (normalized env audio0)) (len env (normalized env audio0))"
  using assms
  by (auto simp add: transcribe_audio_def decoded_audio_def normalized_def Let_def
      split: prod.splits if_splits)

lemma recording_decoded:
  "decoded_audio (recording ms rec) ''talk.wav'' {} = Inr ms"
  by (simp add: decoded_audio_def recording_def load_audio_def video_exts_def
      lower_def lower_char_def Let_def)

lemma recording_view:
  "write_upload (recording ms rec) = Returns ()"
  "normalized (recording ms rec) a = a"
  "len (recording ms rec) a = a"
  "hears (recording ms rec) a = rec"
  by (simp_all add: recording_def normalized_def)

text \<open>
  Claim C2. Let a call of \<open>transcribe_audio\<close> have written the upload and decoded
  it, let \<open>audio\<close> be the normalised buffer and \<open>total_len\<close> its length in
  milliseconds, that is \<open>D = total_len / 1000\<close> seconds. The call processes
  \<open>ceil(D / 30)\<close> windows capped at 10; window \<open>k\<close> starts at \<open>30 k\<close>
  seconds and is 30 seconds long, except a possibly shorter (never empty) last one;
  when no window's recognition request fails, the string the call returns is the
  texts of these windows joined by spaces, and it ends with the notice naming 300
  seconds exactly when \<open>ceil(D / 30) > 10\<close>.
\<close>

theorem chunking:
  assumes written: "write_upload env = Returns ()"
    and decoded: "decoded_audio env filename fs = Inr audio0"
    and audio: "audio = normalized env audio0"
    and total_len: "total_len = len env audio"
    and ok: "\<forall>w\<in>set (windows total_len). \<not> request_failed (hears env audio w)"
  shows "length (windows total_len) = min (nat \<lceil>real total_len / 1000 / 30\<rceil>) 10
    \<and> (\<forall>k<length (windows total_len).
          fst (windows total_len ! k) = k * 30000
        \<and> 0 < snd (windows total_len ! k) - fst (windows total_len ! k)
        \<and> snd (windows total_len ! k) - fst (windows total_len ! k) \<le> 30000
        \<and> (Suc k < length (windows total_len) \<longrightarrow>
             snd (windows total_len ! k) - fst (windows total_len ! k) = 30000))
    \<and> fst (transcribe_audio env filename fs) =
        join '' '' (map (\<lambda>w. chunk_text (hears env audio w)) (windows total_len))
        @ (if 10 < nat \<lceil>real total_len / 1000 / 30\<rceil>
           then '' [Note: Transcript truncated - first 300 seconds only]'' else [])"
proof (intro conjI)
  show "length (windows total_len) = min (nat \<lceil>real total_len / 1000 / 30\<rceil>) 10"
    unfolding num_chunks_ceiling by (simp add: length_windows max_chunks_def)
  show "\<forall>k<length (windows total_len).
          fst (windows total_len ! k) = k * 30000
        \<and> 0 < snd (windows total_len ! k) - fst (windows total_len ! k)
        \<and> snd (windows total_len ! k) - fst (windows total_len ! k) \<le> 30000
        \<and> (Suc k < length (windows total_len) \<longrightarrow>
             snd (windows total_len ! k) - fst (windows total_len ! k) = 30000)"
  proof (intro allI impI)
    fix k assume k: "k < length (windows total_len)"
    show "fst (windows total_len ! k) = k * 30000
        \<and> 0 < snd (windows total_len ! k) - fst (windows total_len ! k)
        \<and> snd (windows total_len ! k) - fst (windows total_len ! k) \<le> 30000
        \<and> (Suc k < length (windows total_len) \<longrightarrow>
             snd (windows total_len ! k) - fst (windows total_len ! k) = 30000)"
      unfolding nth_windows [OF k] using window_bounds [OF k] by blast
  qed
  have "fst (transcribe_audio env filename fs) = transcribe_chunks (hears env audio) total_len"
    unfolding audio total_len by (rule transcribe_audio_decoded [OF written decoded])
  then show "fst (transcribe_audio env filename fs) =
        join '' '' (map (\<lambda>w. chunk_text (hears env audio w)) (windows total_len))
        @ (if 10 < nat \<lceil>real total_len / 1000 / 30\<rceil>
           then '' [Note: Transcript truncated - first 300 seconds only]'' else [])"
    unfolding num_chunks_ceiling using transcribe_chunks_ok [OF ok]
    by (simp add: max_chunks_def)
qed

theorem chunking_witness:
  "length (windows 301000) = 10
   \<and> fst (transcribe_audio
        (recording 301000 (\<lambda>w. if fst w = 0 then UnknownValueError else Recognized ''ok''))
        ''talk.wav'' {}) =
       ''[Unintelligible] ok ok ok ok ok ok ok ok ok [Note: Transcript truncated - first 300 seconds only]''
   \<and> windows 45000 = [(0, 30000), (30000, 45000)]
   \<and> fst (transcribe_audio (recording 45000 (\<lambda>w. Recognized ''word'')) ''talk.wav'' {})
       = ''word word''"
proof -
  let ?rec = "\<lambda>w::nat \<times> nat. if fst w = 0 then UnknownValueError else Recognized ''ok''"
  have h1: "\<forall>w\<in>set (windows 301000). \<not> request_failed (hears (recording 301000 ?rec) 301000 w)"
    by (simp add: request_failed_def recording_view)
  have h2: "\<forall>w\<in>set (windows 45000).
      \<not> request_failed (hears (recording 45000 (\<lambda>w. Recognized ''word'')) 45000 w)"
    by (simp add: request_failed_def recording_view)
  have a1: "301000 = normalized (recording 301000 ?rec) 301000"
    and l1: "301000 = len (recording 301000 ?rec) 301000"
    by (simp_all add: recording_view)
  have a2: "45000 = normalized (recording 45000 (\<lambda>w. Recognized ''word'')) 45000"
    and l2: "45000 = len (recording 45000 (\<lambda>w. Recognized ''word'')) 45000"
    by (simp_all add: recording_view)
  from chunking [OF recording_view(1) recording_decoded a1 l1 h1]
    chunking [OF recording_view(1) recording_decoded a2 l2 h2]
  show ?thesis
    unfolding ceiling_301 ceiling_45 windows_301 windows_45
    by (simp add: chunk_text_def recording_view)
qed

text \<open>
  Claim C3. Let a call of \<open>transcribe_audio\<close> have written the upload and decoded
  it, with \<open>audio\<close> the normalised buffer. When no window's request fails, the
  string returned is the join of one text per window, in order: the marker
  \<open>[Unintelligible]\<close> at every window that could not be understood, the
  recognised text at every other, so the windows after one not understood are still
  processed. When the request of window \<open>k\<close> is the first to fail, the string
  returned is the error string alone, with nothing of the windows recognised
  before it.
\<close>

theorem per_window_outcomes:
  assumes written: "write_upload env = Returns ()"
    and decoded: "decoded_audio env filename fs = Inr audio0"
    and audio: "audio = normalized env audio0"
    and total_len: "total_len = len env audio"
  shows "((\<forall>w\<in>set (windows total_len). \<not> request_failed (hears env audio w)) \<longrightarrow>
        (\<exists>ts. length ts = length (windows total_len)
           \<and> (\<forall>k<length ts.
                 (hears env audio (windows total_len ! k) = UnknownValueError
                    \<longrightarrow> ts ! k = ''[Unintelligible]'')
               \<and> (\<forall>part. hears env audio (windows total_len ! k) = Recognized part
                    \<longrightarrow> ts ! k = part))
           \<and> fst (transcribe_audio env filename fs) =
               join '' '' ts
               @ (if max_chunks < (total_len + chunk_ms - 1) div chunk_ms
                  then '' [Note: Transcript truncated - first 300 seconds only]'' else [])))
   \<and> (k < length (windows total_len)
        \<and> (\<forall>j<k. \<not> request_failed (hears env audio (windows total_len ! j)))
        \<and> hears env audio (windows total_len ! k) = RequestError e \<longrightarrow>
        fst (transcribe_audio env filename fs)
          = cross_mark @ '' recognition request failed: '' @ e)"
proof (intro conjI impI)
  have link: "fst (transcribe_audio env filename fs) = transcribe_chunks (hears env audio) total_len"
    unfolding audio total_len by (rule transcribe_audio_decoded [OF written decoded])
  {
    assume ok: "\<forall>w\<in>set (windows total_len). \<not> request_failed (hears env audio w)"
    let ?ts = "map (\<lambda>w. chunk_text (hears env audio w)) (windows total_len)"
    have 2: "length ?ts = length (windows total_len)" by simp
    have 3: "\<forall>k<length ?ts.
                 (hears env audio (windows total_len ! k) = UnknownValueError
                    \<longrightarrow> ?ts ! k = ''[Unintelligible]'')
               \<and> (\<forall>part. hears env audio (windows total_len ! k) = Recognized part
                    \<longrightarrow> ?ts ! k = part)"
      by (simp add: chunk_text_Unknown chunk_text_Recognized)
    have 4: "fst (transcribe_audio env filename fs) =
               join '' '' ?ts
               @ (if max_chunks < (total_len + chunk_ms - 1) div chunk_ms
                  then '' [Note: Transcript truncated - first 300 seconds only]'' else [])"
      unfolding link by (rule transcribe_chunks_ok [OF ok])
    from 2 3 4
    show "\<exists>ts. length ts = length (windows total_len)
           \<and> (\<forall>k<length ts.
                 (hears env audio (windows total_len ! k) = UnknownValueError
                    \<longrightarrow> ts ! k = ''[Unintelligible]'')
               \<and> (\<forall>part. hears env audio (windows total_len ! k) = Recognized part
                    \<longrightarrow> ts ! k = part))
           \<and> fst (transcribe_audio env filename fs) =
               join '' '' ts
               @ (if max_chunks < (total_len + chunk_ms - 1) div chunk_ms
                  then '' [Note: Transcript truncated - first 300 seconds only]'' else [])"
      by blast
  }
  {
    assume a: "k < length (windows total_len)
        \<and> (\<forall>j<k. \<not> request_failed (hears env audio (windows total_len ! j)))
        \<and> hears env audio (windows total_len ! k) = RequestError e"
    then show "fst (transcribe_audio env filename fs)
          = cross_mark @ '' recognition request failed: '' @ e"
      unfolding link
      using transcribe_chunks_failed [of k total_len "hears env audio" e] by blast
  }
qed

lemma windows_70: "windows 70000 = [(0, 30000), (30000, 60000), (60000, 70000)]"
  by (simp add: windows_def window_def chunk_ms_def max_chunks_def upt_rec)

lemma transcribe_unknown:
  "transcribe_chunks
     (\<lambda>w. if fst w = 0 then Recognized ''hello''
           else if fst w = 30000 then UnknownValueError else Recognized ''bye'') 70000
     = ''hello [Unintelligible] bye''"
  by (simp add: transcribe_chunks_def chunk_ms_def max_chunks_def Let_def upt_rec)

theorem per_window_outcomes_witness:
  "fst (transcribe_audio
     (recording 70000
        (\<lambda>w. if fst w = 0 then Recognized ''hello''
              else if fst w = 30000 then RequestError ''timeout'' else Recognized ''bye''))
     ''talk.wav'' {})
     = cross_mark @ '' recognition request failed: timeout''
   \<and> fst (transcribe_audio
     (recording 70000
        (\<lambda>w. if fst w = 0 then Recognized ''hello''
              else if fst w = 30000 then UnknownValueError else Recognized ''bye''))
     ''talk.wav'' {})
     = ''hello [Unintelligible] bye''"
proof -
  let ?bad = "\<lambda>w::nat \<times> nat. if fst w = 0 then Recognized ''hello''
           else if fst w = 30000 then RequestError ''timeout'' else Recognized ''bye''"
  let ?dim = "\<lambda>w::nat \<times> nat. if fst w = 0 then Recognized ''hello''
           else if fst w = 30000 then UnknownValueError else Recognized ''bye''"
  have a: "70000 = normalized (recording 70000 ?bad) 70000"
    and l: "70000 = len (recording 70000 ?bad) 70000"
    by (simp_all add: recording_view)
  have h: "1 < length (windows 70000)
        \<and> (\<forall>j<1. \<not> request_failed (hears (recording 70000 ?bad) 70000 (windows 70000 ! j)))
        \<and> hears (recording 70000 ?bad) 70000 (windows 70000 ! 1) = RequestError ''timeout''"
    by (simp add: windows_70 request_failed_def recording_view)
  have 1: "fst (transcribe_audio (recording 70000 ?bad) ''talk.wav'' {})
      = cross_mark @ '' recognition request failed: timeout''"
    using per_window_outcomes [OF recording_view(1) recording_decoded a l,
          of 1 "''timeout''", THEN conjunct2, THEN mp, OF h]
    by simp
  have 2: "fst (transcribe_audio (recording 70000 ?dim) ''talk.wav'' {})
      = ''hello [Unintelligible] bye''"
    using transcribe_audio_decoded [OF recording_view(1) recording_decoded, of 70000 ?dim]
      transcribe_unknown
    by (simp add: recording_view)
  from 1 2 show ?thesis by simp
qed

section \<open>Temporary files: proofs\<close>

lemma ext_mp4: "lower (last (split_sep ''.'' ''lecture.mp4'')) = ''mp4''"
  by (simp add: lower_def lower_char_def)

lemma wav_path_mp4:
  "replace ''.mp4'' ''_audio.wav'' ''/tmp/tmpab12cd34.mp4'' = ''/tmp/tmpab12cd34_audio.wav''"
  by simp

text \<open>
  Claim C7 says that every temporary file of a call is removed on every path. The
  code removes the extracted WAV only on the path where it was decoded: here an
  \<open>.mp4\<close> upload whose extracted WAV cannot be decoded starts from an empty file
  system and ends with the WAV still there; the saved upload is gone.
\<close>

theorem wav_left_behind:
  "transcribe_audio undecodable_video ''lecture.mp4'' {} =
     (cross_mark @ '' Cannot extract audio from MP4: decoding failed'',
      {''/tmp/tmpab12cd34_audio.wav''})"
proof -
  have "extract_audio undecodable_video ''mp4'' ''/tmp/tmpab12cd34.mp4'' {''/tmp/tmpab12cd34.mp4''}
      = (Inl (cross_mark @ '' Cannot extract audio from MP4: decoding failed''),
         {''/tmp/tmpab12cd34_audio.wav'', ''/tmp/tmpab12cd34.mp4''})"
    by (simp add: extract_audio_def undecodable_video_def cannot_extract_def
        upper_def upper_char_def Let_def)
  moreover have "{''/tmp/tmpab12cd34_audio.wav'', ''/tmp/tmpab12cd34.mp4''}
      - {''/tmp/tmpab12cd34.mp4''} = {''/tmp/tmpab12cd34_audio.wav''}"
    by auto
  ultimately show ?thesis
    by (simp add: transcribe_audio_def ext_mp4 Let_def lower_def lower_char_def
        video_exts_def unlink_def undecodable_video_def)
qed

section \<open>Notes and quiz: proofs\<close>

text \<open>
  Claim C1 says that a transcript with fewer than four distinct words still gets its
  three questions with no indexing failure. The code tests the length of the word
  list for the third and the fourth word only: on the one-word transcript
  \<open>hello\<close> the second word is read out of range and the call raises
  \<open>IndexError\<close>.
\<close>

theorem one_word_IndexError:
  "generate_ai_notes plain_notes ''hello'' = Inl IndexError"
  by (simp add: generate_ai_notes_def plain_notes_def truncate_transcript_def
      str_split_def is_space_def important_words_def lower_def lower_char_def
      quiz_questions_def item_def Let_def)

lemma comprehension_map_filter:
  "concat (map (\<lambda>s. if P s then [f s] else []) xs) = map f (filter P xs)"
  by (induction xs) simp_all

lemma key_points_eq:
  "key_points transcript =
     map (\<lambda>s. strip s @ ''.'')
       (filter (\<lambda>s. 20 < length (strip s)) (take 5 (split_sep ''. '' transcript)))"
  by (simp add: key_points_def Let_def comprehension_map_filter)

lemma split_example:
  "split_sep ''. '' ''A. B is longer than twenty chars here. C.''
     = [''A'', ''B is longer than twenty chars here'', ''C.'']"
  by simp

lemma key_points_example:
  "key_points ''A. B is longer than twenty chars here. C.''
     = [''B is longer than twenty chars here.'']"
  by (simp add: key_points_def strip_def is_space_def Let_def)

lemma split_six:
  "split_sep ''. '' ''a. b. c. d. e. This sentence is longer than twenty characters''
     = [''a'', ''b'', ''c'', ''d'', ''e'', ''This sentence is longer than twenty characters'']"
  by simp

text \<open>
  Claim C5, as amended. The transcript (as \<open>generate_ai_notes\<close> holds it after
  truncation) is split at \<open>". "\<close>; the bullets are, in their order, those of the
  first five fragments whose stripped length exceeds 20 characters, each stripped and
  followed by a full stop. So there are at most five bullets, each bullet comes from
  one of the first five fragments and is longer than 21 characters, and each of the
  first five fragments that is long enough gives a bullet.
\<close>

theorem key_points_first_five:
  "key_points transcript =
     map (\<lambda>s. strip s @ ''.'')
       (filter (\<lambda>s. 20 < length (strip s)) (take 5 (split_sep ''. '' transcript)))
   \<and> length (key_points transcript) \<le> 5
   \<and> (\<forall>b\<in>set (key_points transcript). 21 < length b
        \<and> (\<exists>i<5. i < length (split_sep ''. '' transcript)
              \<and> b = strip (split_sep ''. '' transcript ! i) @ ''.''))
   \<and> (\<forall>i<5. i < length (split_sep ''. '' transcript)
        \<and> 20 < length (strip (split_sep ''. '' transcript ! i))
        \<longrightarrow> strip (split_sep ''. '' transcript ! i) @ ''.'' \<in> set (key_points transcript))"
proof (intro conjI)
  let ?ss = "split_sep ''. '' transcript"
  show "key_points transcript =
     map (\<lambda>s. strip s @ ''.'') (filter (\<lambda>s. 20 < length (strip s)) (take 5 ?ss))"
    by (rule key_points_eq)
  have "length (filter (\<lambda>s. 20 < length (strip s)) (take 5 ?ss)) \<le> length (take 5 ?ss)"
    by (rule length_filter_le)
  then show "length (key_points transcript) \<le> 5"
    by (simp add: key_points_eq)
  show "\<forall>b\<in>set (key_points transcript). 21 < length b
        \<and> (\<exists>i<5. i < length ?ss \<and> b = strip (?ss ! i) @ ''.'')"
  proof
    fix b assume "b \<in> set (key_points transcript)"
    then obtain s where s: "s \<in> set (take 5 ?ss)" "20 < length (strip s)" "b = strip s @ ''.''"
      by (auto simp: key_points_eq)
    from s(1) obtain i where i: "i < length (take 5 ?ss)" "take 5 ?ss ! i = s"
      by (auto simp: in_set_conv_nth)
    then have "i < 5" "i < length ?ss" "?ss ! i = s" by simp_all
    with s show "21 < length b \<and> (\<exists>i<5. i < length ?ss \<and> b = strip (?ss ! i) @ ''.'')"
      by auto
  qed
  show "\<forall>i<5. i < length ?ss \<and> 20 < length (strip (?ss ! i))
        \<longrightarrow> strip (?ss ! i) @ ''.'' \<in> set (key_points transcript)"
  proof (intro allI impI)
    fix i assume i: "i < 5" and a: "i < length ?ss \<and> 20 < length (strip (?ss ! i))"
    then have "i < length (take 5 ?ss)" by simp
    then have "take 5 ?ss ! i \<in> set (take 5 ?ss)" by (rule nth_mem)
    with i a have "?ss ! i \<in> set (take 5 ?ss)" by simp
    with a show "strip (?ss ! i) @ ''.'' \<in> set (key_points transcript)"
      by (auto simp: key_points_eq)
  qed
qed

theorem key_points_first_five_witness:
  "key_points ''A. B is longer than twenty chars here. C.''
     = [''B is longer than twenty chars here.'']
   \<and> length (key_points ''A. B is longer than twenty chars here. C.'') \<le> 5"
  using key_points_first_five [of "''A. B is longer than twenty chars here. C.''"]
    key_points_example
  by simp

text \<open>
  Claim C5 as stated takes the first five of the long fragments. On a transcript
  whose first five fragments are short and whose sixth is long, the code gives no
  bullet, where the first five long fragments would give one.
\<close>

theorem key_points_counterexample:
  "key_points ''a. b. c. d. e. This sentence is longer than twenty characters'' = []
   \<and> map (\<lambda>s. strip s @ ''.'')
       (take 5 (filter (\<lambda>s. 20 < length (strip s))
          (split_sep ''. '' ''a. b. c. d. e. This sentence is longer than twenty characters'')))
     = [''This sentence is longer than twenty characters.'']"
  by (simp add: key_points_def strip_def is_space_def Let_def)

lemma generate_ai_notes_quiz_words:
  "load_summarizer env = Returns () \<Longrightarrow>
   generate_ai_notes env transcript0 =
     (case quiz_questions (quiz_words (set_order env) transcript0) of
        Inl e \<Rightarrow> Inl e
      | Inr quiz \<Rightarrow>
          Inr (notes_text
                 (case summarizer env (truncate_transcript transcript0) of
                    Returns s \<Rightarrow> s | Raises _ \<Rightarrow> ''Summary could not be generated.'')
                 (bullet_points (truncate_transcript transcript0)) quiz))"
  by (simp add: generate_ai_notes_def quiz_words_def Let_def)

lemma lower_char_cases:
  "lower_char c = c \<or>
   (c \<in> set ''ABCDEFGHIJKLMNOPQRSTUVWXYZ'' \<and> lower_char c \<in> set ''abcdefghijklmnopqrstuvwxyz'')"
proof (cases "map_of (zip ''ABCDEFGHIJKLMNOPQRSTUVWXYZ'' ''abcdefghijklmnopqrstuvwxyz'') c")
  case None
  then have "lower_char c = c" unfolding lower_char_def by (simp only: option.case)
  then show ?thesis by (rule disjI1)
next
  case (Some d)
  then have m: "(c, d) \<in> set (zip ''ABCDEFGHIJKLMNOPQRSTUVWXYZ'' ''abcdefghijklmnopqrstuvwxyz'')"
    by (rule map_of_SomeD)
  have 1: "c \<in> set ''ABCDEFGHIJKLMNOPQRSTUVWXYZ''" using m by (rule set_zip_leftD)
  have 2: "d \<in> set ''abcdefghijklmnopqrstuvwxyz''" using m by (rule set_zip_rightD)
  have 3: "lower_char c = d" unfolding lower_char_def using Some by (simp only: option.case)
  from 1 2 3 show ?thesis by blast
qed

lemma letters_not_space:
  "c \<in> set ''ABCDEFGHIJKLMNOPQRSTUVWXYZ'' \<Longrightarrow> \<not> is_space c"
  "c \<in> set ''abcdefghijklmnopqrstuvwxyz'' \<Longrightarrow> \<not> is_space c"
  by (auto simp: is_space_def)

lemma is_space_lower_char: "is_space (lower_char c) = is_space c"
proof (cases "lower_char c = c")
  case True
  then show ?thesis by simp
next
  case False
  with lower_char_cases [of c]
  have u: "c \<in> set ''ABCDEFGHIJKLMNOPQRSTUVWXYZ''"
    and l: "lower_char c \<in> set ''abcdefghijklmnopqrstuvwxyz''" by blast+
  from u have "\<not> is_space c" by (rule letters_not_space(1))
  moreover from l have "\<not> is_space (lower_char c)" by (rule letters_not_space(2))
  ultimately show ?thesis by simp
qed

lemma split_run_lower: "split_run (lower w) (lower s) = map lower (split_run w s)"
proof (induction s arbitrary: w)
  case Nil
  then show ?case by (simp add: lower_def)
next
  case (Cons c cs)
  have a: "lower (w @ [c]) = lower w @ [lower_char c]" by (simp add: lower_def)
  have b: "lower (c # cs) = lower_char c # lower cs" by (simp add: lower_def)
  have d: "lower w = [] \<longleftrightarrow> w = []" by (simp add: lower_def)
  have e: "lower [] = []" by (simp add: lower_def)
  show ?case
    unfolding b using Cons.IH [of "w @ [c]"] Cons.IH [of "[]"]
    by (simp add: is_space_lower_char a d e)
qed

lemma str_split_lower: "str_split (lower s) = map lower (str_split s)"
  using split_run_lower [of "[]" s] by (simp add: str_split_def lower_def)

lemma split_run_word:
  "\<forall>c\<in>set w. \<not> is_space c \<Longrightarrow> split_run acc (w @ s) = split_run (acc @ w) s"
  by (induction w arbitrary: acc) simp_all

lemma split_run_words:
  "\<forall>c\<in>set acc. \<not> is_space c \<Longrightarrow>
   \<forall>w\<in>set (split_run acc s). w \<noteq> [] \<and> (\<forall>c\<in>set w. \<not> is_space c)"
proof (induction s arbitrary: acc)
  case Nil
  then show ?case by simp
next
  case (Cons a s)
  show ?case
  proof (cases "is_space a")
    case True
    have "\<forall>c\<in>set ([]::string). \<not> is_space c" by simp
    from Cons.IH [OF this] Cons.prems True show ?thesis by simp
  next
    case False
    with Cons.prems have "\<forall>c\<in>set (acc @ [a]). \<not> is_space c" by simp
    from Cons.IH [OF this] False show ?thesis by simp
  qed
qed

lemma str_split_words:
  "w \<in> set (str_split s) \<Longrightarrow> w \<noteq> [] \<and> (\<forall>c\<in>set w. \<not> is_space c)"
  using split_run_words [of "[]" s] by (simp add: str_split_def)

lemma space_is_space: "is_space CHR '' ''"
  by (simp add: is_space_def)

lemma str_split_join:
  "\<forall>w\<in>set ws. w \<noteq> [] \<and> (\<forall>c\<in>set w. \<not> is_space c) \<Longrightarrow> str_split (join '' '' ws) = ws"
proof (induction "'' ''" ws rule: join.induct)
  case 1
  then show ?case by (simp add: str_split_def)
next
  case (2 x)
  then have "split_run [] (x @ []) = split_run ([] @ x) []" by (intro split_run_word) simp
  with 2 show ?case by (simp add: str_split_def)
next
  case (3 x y ys)
  then have x: "x \<noteq> []" "\<forall>c\<in>set x. \<not> is_space c" by simp_all
  from 3 have ih: "split_run [] (join '' '' (y # ys)) = y # ys" by (simp add: str_split_def)
  have "split_run [] (x @ '' '' @ join '' '' (y # ys))
      = split_run ([] @ x) ('' '' @ join '' '' (y # ys))"
    using x(2) by (rule split_run_word)
  also have "\<dots> = x # split_run [] (join '' '' (y # ys))"
    using x(1) by (simp add: space_is_space)
  finally show ?case using ih by (simp add: str_split_def)
qed

lemma words_truncate: "str_split (truncate_transcript t) = take 900 (str_split t)"
proof (cases "900 < length (str_split t)")
  case True
  have "\<forall>w\<in>set (take 900 (str_split t)). w \<noteq> [] \<and> (\<forall>c\<in>set w. \<not> is_space c)"
  proof
    fix w assume "w \<in> set (take 900 (str_split t))"
    then have "w \<in> set (str_split t)" by (rule in_set_takeD)
    then show "w \<noteq> [] \<and> (\<forall>c\<in>set w. \<not> is_space c)" by (rule str_split_words)
  qed
  then have "str_split (join '' '' (take 900 (str_split t))) = take 900 (str_split t)"
    by (rule str_split_join)
  with True show ?thesis by (simp add: truncate_transcript_def Let_def)
next
  case False
  then show ?thesis by (simp add: truncate_transcript_def Let_def)
qed

lemma words_lower_truncate:
  "str_split (lower (truncate_transcript t)) = map lower (take 900 (str_split t))"
  by (simp add: str_split_lower words_truncate)

lemma top_ten_props:
  fixes order :: "string list \<Rightarrow> string list" and ws :: "string list"
  assumes ord: "distinct (order ws) \<and> set (order ws) = set ws"
  shows "set (take 10 (sort_key (\<lambda>w. - int (length w)) (order ws))) \<subseteq> set ws
    \<and> distinct (take 10 (sort_key (\<lambda>w. - int (length w)) (order ws)))
    \<and> length (take 10 (sort_key (\<lambda>w. - int (length w)) (order ws))) = min 10 (card (set ws))
    \<and> sorted_wrt (\<lambda>a b. length b \<le> length a)
         (take 10 (sort_key (\<lambda>w. - int (length w)) (order ws)))
    \<and> (\<forall>w\<in>set ws - set (take 10 (sort_key (\<lambda>w. - int (length w)) (order ws))).
         \<forall>v\<in>set (take 10 (sort_key (\<lambda>w. - int (length w)) (order ws))).
           length w \<le> length v)"
proof -
  let ?k = "\<lambda>w::string. - int (length w)"
  let ?ys = "sort_key ?k (order ws)"
  let ?Q = "take 10 ?ys"
  have set_ys: "set ?ys = set ws" using ord by simp
  have dist_ys: "distinct ?ys" using ord by simp
  have "length ?ys = card (set ?ys)" using dist_ys by (simp add: distinct_card)
  then have len_ys: "length ?ys = card (set ws)" using set_ys by simp
  have "sorted (map ?k ?ys)" by (rule sorted_sort_key)
  then have sw: "sorted_wrt (\<lambda>a b. ?k a \<le> ?k b) ?ys" by (simp add: sorted_map)
  have sw': "sorted_wrt (\<lambda>a b. length b \<le> length a) ?ys"
    using sw by (rule sorted_wrt_mono_rel [rotated]) simp
  have c1: "set ?Q \<subseteq> set ws" using set_ys set_take_subset by fastforce
  have c2: "distinct ?Q" using dist_ys by (rule distinct_take)
  have c3: "length ?Q = min 10 (card (set ws))" using len_ys by simp
  have c4: "sorted_wrt (\<lambda>a b. length b \<le> length a) ?Q"
    using sw' by (rule sorted_wrt_take)
  have "sorted_wrt (\<lambda>a b. length b \<le> length a) (?Q @ drop 10 ?ys)"
    using sw' by simp
  then have cross: "\<forall>v\<in>set ?Q. \<forall>w\<in>set (drop 10 ?ys). length w \<le> length v"
    unfolding sorted_wrt_append by blast
  have "set ?ys = set ?Q \<union> set (drop 10 ?ys)"
    by (metis append_take_drop_id set_append)
  then have "set ws - set ?Q \<subseteq> set (drop 10 ?ys)" using set_ys by blast
  with cross have c5: "\<forall>w\<in>set ws - set ?Q. \<forall>v\<in>set ?Q. length w \<le> length v"
    by blast
  from c1 c2 c3 c4 c5 show ?thesis by (intro conjI)
qed

text \<open>
  Claim C4, as amended. \<open>generate_ai_notes\<close> builds the quiz from the list
  \<open>qs\<close>, the important words of the transcript as it is after its truncation to
  the first 900 words: \<open>qs\<close> holds, each once, words among the first 900 words of
  the input in lower case; it holds ten of them, or all when they are fewer; it is in
  descending order of length; and no word left out is longer than a word taken. So
  for an input of more than 900 words no word after the 900th is a quiz word, unless
  it also stands among the first 900. The set may be iterated in any order that
  gives each of its words once.
\<close>

theorem quiz_words_from_truncated:
  assumes loaded: "load_summarizer env = Returns ()"
    and ord: "\<forall>ws. distinct (set_order env ws) \<and> set (set_order env ws) = set ws"
    and first_words: "first_words = map lower (take 900 (str_split transcript))"
    and qs: "qs = quiz_words (set_order env) transcript"
  shows "generate_ai_notes env transcript =
      (case quiz_questions qs of
         Inl e \<Rightarrow> Inl e
       | Inr quiz \<Rightarrow>
           Inr (notes_text
                  (case summarizer env (truncate_transcript transcript) of
                     Returns s \<Rightarrow> s | Raises _ \<Rightarrow> ''Summary could not be generated.'')
                  (bullet_points (truncate_transcript transcript)) quiz))
    \<and> set qs \<subseteq> set first_words
    \<and> distinct qs
    \<and> length qs = min 10 (card (set first_words))
    \<and> sorted_wrt (\<lambda>a b. length b \<le> length a) qs
    \<and> (\<forall>w\<in>set first_words - set qs. \<forall>v\<in>set qs. length w \<le> length v)"
proof -
  have q: "qs = take 10 (sort_key (\<lambda>w. - int (length w)) (set_order env first_words))"
    unfolding qs first_words
    by (simp add: quiz_words_def important_words_def words_lower_truncate)
  from ord have o: "distinct (set_order env first_words)
      \<and> set (set_order env first_words) = set first_words"
    by (rule spec)
  have props: "set qs \<subseteq> set first_words
    \<and> distinct qs
    \<and> length qs = min 10 (card (set first_words))
    \<and> sorted_wrt (\<lambda>a b. length b \<le> length a) qs
    \<and> (\<forall>w\<in>set first_words - set qs. \<forall>v\<in>set qs. length w \<le> length v)"
    unfolding q by (rule top_ten_props [of "set_order env" first_words, OF o])
  have "generate_ai_notes env transcript =
      (case quiz_questions qs of
         Inl e \<Rightarrow> Inl e
       | Inr quiz \<Rightarrow>
           Inr (notes_text
                  (case summarizer env (truncate_transcript transcript) of
                     Returns s \<Rightarrow> s | Raises _ \<Rightarrow> ''Summary could not be generated.'')
                  (bullet_points (truncate_transcript transcript)) quiz))"
    unfolding qs by (rule generate_ai_notes_quiz_words [OF loaded])
  from this props show ?thesis by (rule conjI)
qed

lemma quiz_words_fox:
  "quiz_words remdups ''The quick brown fox'' = [''quick'', ''brown'', ''the'', ''fox'']"
  by (simp add: quiz_words_def important_words_def truncate_transcript_def
      str_split_def is_space_def lower_def lower_char_def Let_def)

lemma quiz_questions_fox:
  "quiz_questions [''quick'', ''brown'', ''the'', ''fox'']
     = Inr (quiz_text ''Quick'' ''Brown'' ''The'' ''Fox'')"
  by (simp add: quiz_questions_def item_def capitalize_def upper_char_def lower_def
      lower_char_def)

lemma truncate_fox: "truncate_transcript ''The quick brown fox'' = ''The quick brown fox''"
  by (simp add: truncate_transcript_def str_split_def is_space_def Let_def)

lemma plain_notes_view:
  "load_summarizer plain_notes = Returns ()"
  "set_order plain_notes = remdups"
  "summarizer plain_notes t = Returns ''A summary.''"
  by (simp_all add: plain_notes_def)

theorem quiz_words_from_truncated_witness:
  "generate_ai_notes plain_notes ''The quick brown fox'' =
     Inr (notes_text ''A summary.'' (bullet_points ''The quick brown fox'')
            (quiz_text ''Quick'' ''Brown'' ''The'' ''Fox''))
   \<and> quiz_words remdups ''The quick brown fox'' = [''quick'', ''brown'', ''the'', ''fox'']
   \<and> length (quiz_words remdups ''The quick brown fox'')
       = min 10 (card (set (map lower (take 900 (str_split ''The quick brown fox'')))))"
proof -
  have o: "\<forall>ws. distinct (set_order plain_notes ws) \<and> set (set_order plain_notes ws) = set ws"
    by (simp add: plain_notes_view)
  have q: "[''quick'', ''brown'', ''the'', ''fox'']
      = quiz_words (set_order plain_notes) ''The quick brown fox''"
    by (simp only: plain_notes_view quiz_words_fox)
  from quiz_words_from_truncated [OF plain_notes_view(1) o refl q]
  show ?thesis
    by (simp only: quiz_questions_fox truncate_fox plain_notes_view quiz_words_fox
        sum.case outcome.case simp_thms)
qed

lemma split_run_pairs:
  "split_run [] (concat (replicate n ''a bb '') @ s)
     = concat (replicate n [''a'', ''bb'']) @ split_run [] s"
  by (induction n) (simp_all add: is_space_def)

lemma length_pairs: "length (concat (replicate n [x, y])) = 2 * n"
  by (induction n) simp_all

lemma str_split_long:
  "str_split long_transcript = concat (replicate 450 [''a'', ''bb'']) @ [''extraordinary'']"
  unfolding long_transcript_def str_split_def split_run_pairs
  by (simp add: is_space_def)

lemma lower_pairs:
  "map lower (concat (replicate n [''a'', ''bb''])) = concat (replicate n [''a'', ''bb''])"
  by (induction n) (simp_all add: lower_def lower_char_def)

lemma remdups_pairs:
  "remdups (concat (replicate (Suc n) [''a'', ''bb''])) = [''a'', ''bb'']"
  by (induction n) simp_all

lemma remdups_pairs_more:
  "remdups (concat (replicate (Suc n) [''a'', ''bb'']) @ [''extraordinary''])
     = [''a'', ''bb'', ''extraordinary'']"
  by (induction n) simp_all

lemma quiz_words_long: "quiz_words remdups long_transcript = [''bb'', ''a'']"
proof -
  have "take 900 (str_split long_transcript) = concat (replicate 450 [''a'', ''bb''])"
    unfolding str_split_long by (simp add: length_pairs)
  then have "str_split (lower (truncate_transcript long_transcript))
      = concat (replicate 450 [''a'', ''bb''])"
    by (simp only: words_lower_truncate lower_pairs)
  moreover have "remdups (concat (replicate 450 [''a'', ''bb''])) = [''a'', ''bb'']"
    using remdups_pairs [of 449] by simp
  ultimately show ?thesis
    by (simp add: quiz_words_def important_words_def)
qed

lemma important_words_long:
  "important_words remdups long_transcript = [''extraordinary'', ''bb'', ''a'']"
proof -
  have "str_split (lower long_transcript)
      = concat (replicate 450 [''a'', ''bb'']) @ [''extraordinary'']"
    unfolding str_split_lower str_split_long
    by (simp add: lower_pairs) (simp add: lower_def lower_char_def)
  moreover have "remdups (concat (replicate 450 [''a'', ''bb'']) @ [''extraordinary''])
      = [''a'', ''bb'', ''extraordinary'']"
    using remdups_pairs_more [of 449] by simp
  ultimately show ?thesis
    by (simp add: important_words_def)
qed

text \<open>
  Claim C4 as stated takes the important words from the full transcript. The
  transcript \<open>long_transcript\<close> has 901 words, the last one the longest: the quiz
  of \<open>generate_ai_notes\<close> is made from \<open>bb\<close> and \<open>a\<close>, where the important
  words of the full transcript start with \<open>extraordinary\<close> and give another quiz.
\<close>

theorem quiz_words_counterexample:
  "generate_ai_notes plain_notes long_transcript =
     Inr (notes_text ''A summary.'' (bullet_points (truncate_transcript long_transcript))
            (quiz_text ''Bb'' ''A'' ''Topic'' ''Discussion''))
   \<and> quiz_words remdups long_transcript = [''bb'', ''a'']
   \<and> important_words remdups long_transcript = [''extraordinary'', ''bb'', ''a'']
   \<and> quiz_questions (important_words remdups long_transcript)
       = Inr (quiz_text ''Extraordinary'' ''Bb'' ''A'' ''Discussion'')"
proof -
  have 1: "quiz_questions [''bb'', ''a''] = Inr (quiz_text ''Bb'' ''A'' ''Topic'' ''Discussion'')"
    by (simp add: quiz_questions_def item_def capitalize_def upper_char_def lower_def
        lower_char_def)
  have 2: "quiz_questions [''extraordinary'', ''bb'', ''a'']
      = Inr (quiz_text ''Extraordinary'' ''Bb'' ''A'' ''Discussion'')"
    by (simp add: quiz_questions_def item_def capitalize_def upper_char_def lower_def
        lower_char_def)
  have "generate_ai_notes plain_notes long_transcript =
     Inr (notes_text ''A summary.'' (bullet_points (truncate_transcript long_transcript))
            (quiz_text ''Bb'' ''A'' ''Topic'' ''Discussion''))"
    by (simp only: generate_ai_notes_quiz_words [OF plain_notes_view(1)] plain_notes_view
        quiz_words_long 1 sum.case outcome.case)
  with 2 show ?thesis
    by (simp only: quiz_words_long important_words_long simp_thms)
qed

section \<open>Captions of a YouTube video: proofs\<close>

lemma fetch_any_first:
  "i < length ts \<Longrightarrow> ts ! i = Inr data \<Longrightarrow> data \<noteq> [] \<Longrightarrow>
   \<forall>j<i. \<not> has_text (ts ! j) \<Longrightarrow> fetch_any ts d0 = Some data"
proof (induction ts arbitrary: i d0)
  case Nil
  then show ?case by simp
next
  case (Cons t ts)
  show ?case
  proof (cases i)
    case 0
    with Cons.prems show ?thesis by simp
  next
    case (Suc k)
    with Cons.prems have k: "k < length ts" "ts ! k = Inr data" by simp_all
    have before: "\<forall>j<k. \<not> has_text (ts ! j)"
    proof (intro allI impI)
      fix j assume "j < k"
      then have "Suc j < i" using Suc by simp
      with Cons.prems(4) have "\<not> has_text ((t # ts) ! Suc j)" by blast
      then show "\<not> has_text (ts ! j)" by simp
    qed
    from Cons.prems(4) Suc have "\<not> has_text ((t # ts) ! 0)" by blast
    then have t: "\<not> has_text t" by simp
    note IH = Cons.IH [OF k Cons.prems(3) before]
    from t show ?thesis
      by (cases t) (simp_all add: has_text_def IH)
  qed
qed

lemma fetch_any_none:
  "\<forall>t\<in>set ts. \<not> has_text t \<Longrightarrow>
   fetch_any ts d0 = (if \<exists>t\<in>set ts. \<not> raises t then Some [] else d0)"
proof (induction ts arbitrary: d0)
  case Nil
  then show ?case by simp
next
  case (Cons t ts)
  then have r: "\<forall>t\<in>set ts. \<not> has_text t" and t: "\<not> has_text t" by simp_all
  note IH = Cons.IH [OF r]
  from t show ?case
    by (cases t) (simp_all add: has_text_def raises_def IH)
qed

lemma fetch_transcript_fallback:
  "fetch env video_id = Inl e \<Longrightarrow> caught_for_fallback e \<Longrightarrow>
   list_transcripts env video_id = Inr tracks \<Longrightarrow>
   fetch_transcript env video_id =
     (case fetch_any tracks None of None \<Rightarrow> Inl e | Some data \<Rightarrow> Inr data)"
  by (simp add: fetch_transcript_def)

text \<open>
  Claim C8, as amended. Let the URL hold a video identifier, let the default fetch
  fail with an exception that line 263 catches, and let the listing return the
  caption tracks. The handler shows the joined text of the first track whose fetch
  returns at least one item: the tracks before it have raised or returned no item.
  When the fetch of every track raises (also when there is no track), the original
  exception is raised again and reported under its category: each of
  \<open>TranscriptsDisabled\<close> and \<open>NoTranscriptFound\<close> by its own message, another
  retrieval failure by its text. When no track returns
  an item and some fetch returns without raising, the text retrieved is empty.
\<close>

theorem fallback_tracks:
  assumes vid: "extract_video_id yt_url = Some video_id"
    and failed: "fetch env video_id = Inl e"
    and caught: "caught_for_fallback e"
    and listed: "list_transcripts env video_id = Inr tracks"
  shows "(i < length tracks \<and> tracks ! i = Inr data \<and> data \<noteq> []
            \<and> (\<forall>j<i. \<not> has_text (tracks ! j))
          \<longrightarrow> youtube_handler env yt_url = Retrieved (join '' '' data))
    \<and> ((\<forall>t\<in>set tracks. raises t) \<longrightarrow>
          youtube_handler env yt_url = Error (report e)
        \<and> (e = TranscriptsDisabled \<longrightarrow>
              report e = ''Transcripts are disabled for this video.'')
        \<and> (e = NoTranscriptFound \<longrightarrow>
              report e = ''No transcript found for this video. It may not have captions (CC).'')
        \<and> (\<forall>msg. e = CouldNotRetrieveTranscript msg \<longrightarrow>
              report e = ''Could not get transcript: '' @ msg))
    \<and> ((\<forall>t\<in>set tracks. \<not> has_text t) \<and> (\<exists>t\<in>set tracks. \<not> raises t)
          \<longrightarrow> youtube_handler env yt_url = Retrieved [])"
proof -
  note fb = fetch_transcript_fallback [OF failed caught listed]
  have 1: "youtube_handler env yt_url = Retrieved (join '' '' data)"
    if a: "i < length tracks \<and> tracks ! i = Inr data \<and> data \<noteq> []
            \<and> (\<forall>j<i. \<not> has_text (tracks ! j))"
  proof -
    from a have "fetch_any tracks None = Some data"
      using fetch_any_first [of i tracks data None] by blast
    then show ?thesis by (simp add: youtube_handler_def vid fb)
  qed
  have 2: "youtube_handler env yt_url = Error (report e)"
    if a: "\<forall>t\<in>set tracks. raises t"
  proof -
    have n: "\<forall>t\<in>set tracks. \<not> has_text t"
    proof
      fix t assume "t \<in> set tracks"
      with a have "raises t" by blast
      then show "\<not> has_text t" by (cases t) (simp_all add: raises_def has_text_def)
    qed
    from a have "fetch_any tracks None = None"
      unfolding fetch_any_none [OF n] by simp
    then show ?thesis by (simp add: youtube_handler_def vid fb)
  qed
  have 3: "youtube_handler env yt_url = Retrieved []"
    if a: "(\<forall>t\<in>set tracks. \<not> has_text t) \<and> (\<exists>t\<in>set tracks. \<not> raises t)"
  proof -
    from a have n: "\<forall>t\<in>set tracks. \<not> has_text t" and s: "\<exists>t\<in>set tracks. \<not> raises t"
      by blast+
    from s have "fetch_any tracks None = Some []"
      unfolding fetch_any_none [OF n] by simp
    then show ?thesis by (simp add: youtube_handler_def vid fb)
  qed
  have 4: "(e = TranscriptsDisabled \<longrightarrow>
              report e = ''Transcripts are disabled for this video.'')
        \<and> (e = NoTranscriptFound \<longrightarrow>
              report e = ''No transcript found for this video. It may not have captions (CC).'')
        \<and> (\<forall>msg. e = CouldNotRetrieveTranscript msg \<longrightarrow>
              report e = ''Could not get transcript: '' @ msg)"
    by (simp add: report_def)
  from 1 2 3 4 show ?thesis by blast
qed

lemma captions_view:
  "fetch (captions e tracks) video_id = Inl e"
  "list_transcripts (captions e tracks) video_id = Inr tracks"
  by (simp_all add: captions_def)

theorem fallback_tracks_witness:
  "youtube_handler
     (captions NoTranscriptFound
        [Inl (OtherException ''blocked''), Inr [], Inr [''hello'', ''world''], Inr [''other'']])
     ''https://youtu.be/dQw4w9WgXcQ'' = Retrieved ''hello world''
   \<and> youtube_handler
     (captions TranscriptsDisabled [Inl (OtherException ''blocked''), Inl NoTranscriptFound])
     ''https://youtu.be/dQw4w9WgXcQ'' = Error ''Transcripts are disabled for this video.''"
proof -
  let ?ts = "[Inl (OtherException ''blocked''), Inr [], Inr [''hello'', ''world''],
      Inr [''other'']] :: track list"
  let ?rs = "[Inl (OtherException ''blocked''), Inl NoTranscriptFound] :: track list"
  have c1: "caught_for_fallback NoTranscriptFound" and c2: "caught_for_fallback TranscriptsDisabled"
    by (simp_all add: caught_for_fallback_def)
  have h1: "2 < length ?ts \<and> ?ts ! 2 = Inr [''hello'', ''world''] \<and> [''hello'', ''world''] \<noteq> []
      \<and> (\<forall>j<2. \<not> has_text (?ts ! j))"
    by (simp add: has_text_def less_Suc_eq numeral_2_eq_2)
  have h2: "\<forall>t\<in>set ?rs. raises t" by (simp add: raises_def)
  have 1: "youtube_handler (captions NoTranscriptFound ?ts) ''https://youtu.be/dQw4w9WgXcQ''
      = Retrieved (join '' '' [''hello'', ''world''])"
    using fallback_tracks [OF extract_short_link captions_view(1) c1 captions_view(2),
        of 2 ?ts "[''hello'', ''world'']", THEN conjunct1, THEN mp, OF h1] .
  have 2: "youtube_handler (captions TranscriptsDisabled ?rs) ''https://youtu.be/dQw4w9WgXcQ''
      = Error (report TranscriptsDisabled)
      \<and> report TranscriptsDisabled = ''Transcripts are disabled for this video.''"
    using fallback_tracks [OF extract_short_link captions_view(1) c2 captions_view(2),
        of 0 ?rs "[]", THEN conjunct2, THEN conjunct1, THEN mp, OF h2]
    by simp
  from 1 2 show ?thesis by simp
qed

text \<open>
  Claim C8 as stated returns the text of the first track that fetches
  successfully. Here the default fetch finds no transcript and two tracks are
  listed, both fetched without an exception: the first has no item, and the handler
  retrieves the text of the second, where the first track fetched with success has
  the empty text.
\<close>

theorem first_fetched_track_counterexample:
  "youtube_handler (captions NoTranscriptFound [Inr [], Inr [''hi'']])
     ''https://youtu.be/dQw4w9WgXcQ'' = Retrieved ''hi''
   \<and> map (\<lambda>t. join '' '' (projr t))
        (filter (\<lambda>t. \<not> raises t) ([Inr [], Inr [''hi'']] :: track list)) = ['''', ''hi'']"
  by (simp add: youtube_handler_def extract_short_link fetch_transcript_def captions_def
      caught_for_fallback_def raises_def)

end
